theory Spec2Isabelle
  imports Complex_Main
begin

section \<open>Page element writer (src/pageElementWriter.js)\<close>

subsection \<open>Data\<close>

text \<open>
  Lines and vectors are already positioned when they reach the writer; their
  contents are opaque here. A page is \<open>{ lines: [], vectors: [] }\<close>. The object
  that \<open>commitUnbreakableBlock\<close> hands to \<open>addFragment\<close> is the first page
  object of the transaction context with a \<open>height\<close> property added, and a
  repeatable carries \<open>xOffset\<close> and \<open>height\<close>, so one record with two
  optional properties serves for pages and fragments.
\<close>

datatype line = Line string

datatype pvector = PVector string

record page =
  lines :: "line list"
  vectors :: "pvector list"
  height :: "real option"
  xOffset :: "real option"

type_synonym fragment = page

record ctx =
  pageIdx :: int
  pages :: "page list"
  ctxX :: real
  ctxY :: real

text \<open>
  \<open>this.context\<close> is a reference to one of two context objects:
  \<open>this.originalContext\<close> or \<open>this.transactionContext\<close>.
\<close>

datatype ctxref = Original | Transaction

text \<open>
  Calls that leave the module: the methods of the low-level ElementWriter and of
  the layout context. Neither is defined in this file of the repository; they
  are parameters of the model, and every call is recorded in order.
\<close>

datatype call =
    WAddLine line bool
  | WAddVector pvector
  | WAddFragment fragment bool
  | WSetContext ctxref
  | CMoveToPageTop
  | CMoveDown "real option"
  | CCreateUnbreakableSubcontext

record collab =
  w_addLine :: "line \<Rightarrow> bool \<Rightarrow> ctx \<Rightarrow> bool \<times> ctx"
  w_addVector :: "pvector \<Rightarrow> ctx \<Rightarrow> ctx"
  w_addFragment :: "fragment \<Rightarrow> bool \<Rightarrow> ctx \<Rightarrow> bool \<times> ctx"
  c_moveToPageTop :: "ctx \<Rightarrow> ctx"
  c_moveDown :: "real option \<Rightarrow> ctx \<Rightarrow> ctx"
  c_createUnbreakableSubcontext :: "ctx \<Rightarrow> ctx"

record pew =
  originalContext :: ctx
  transactionContext :: "ctx option"
  contextRef :: ctxref
  transactionLevel :: int
  repeatables :: "fragment list"
  calls :: "call list"

text \<open>
  How a method call ends: none of the methods has a \<open>return\<close> statement with a
  value, so a call that completes yields \<open>undefined\<close>; reading a property of
  the undefined \<open>transactionContext\<close> throws a TypeError.
\<close>

datatype completion = Undefined | TypeError

definition PageElementWriter :: "ctx \<Rightarrow> pew" where
  "PageElementWriter c =
     \<lparr> originalContext = c, transactionContext = None, contextRef = Original,
       transactionLevel = 0, repeatables = [], calls = [] \<rparr>"

subsection \<open>The active context\<close>

definition getContext :: "pew \<Rightarrow> ctx option" where
  "getContext s =
     (case contextRef s of Original \<Rightarrow> Some (originalContext s)
      | Transaction \<Rightarrow> transactionContext s)"

definition setContext :: "ctx \<Rightarrow> pew \<Rightarrow> pew" where
  "setContext c s =
     (case contextRef s of Original \<Rightarrow> s\<lparr>originalContext := c\<rparr>
      | Transaction \<Rightarrow> s\<lparr>transactionContext := Some c\<rparr>)"

definition logCall :: "call \<Rightarrow> pew \<Rightarrow> pew" where
  "logCall e s = s\<lparr>calls := calls s @ [e]\<rparr>"

subsection \<open>Calls of the low-level writer on the active context\<close>

definition writerAddLine :: "collab \<Rightarrow> line \<Rightarrow> bool \<Rightarrow> pew \<Rightarrow> (bool \<times> pew) option" where
  "writerAddLine C l d s =
     (case getContext s of None \<Rightarrow> None
      | Some c \<Rightarrow> (case w_addLine C l d c of
          (ok, c') \<Rightarrow> Some (ok, setContext c' (logCall (WAddLine l d) s))))"

definition writerAddFragment :: "collab \<Rightarrow> fragment \<Rightarrow> bool \<Rightarrow> pew \<Rightarrow> (bool \<times> pew) option" where
  "writerAddFragment C f u s =
     (case getContext s of None \<Rightarrow> None
      | Some c \<Rightarrow> (case w_addFragment C f u c of
          (ok, c') \<Rightarrow> Some (ok, setContext c' (logCall (WAddFragment f u) s))))"

definition writerAddVector :: "collab \<Rightarrow> pvector \<Rightarrow> pew \<Rightarrow> pew option" where
  "writerAddVector C v s =
     (case getContext s of None \<Rightarrow> None
      | Some c \<Rightarrow> Some (setContext (w_addVector C v c) (logCall (WAddVector v) s)))"

subsection \<open>moveToNextPage\<close>

fun addRepeatables :: "collab \<Rightarrow> fragment list \<Rightarrow> pew \<Rightarrow> pew option" where
  "addRepeatables C [] s = Some s"
| "addRepeatables C (rep # reps) s =
     (case writerAddFragment C rep True s of None \<Rightarrow> None
      | Some (ok, s') \<Rightarrow> addRepeatables C reps s')"

fun moveDownRepeatables :: "collab \<Rightarrow> fragment list \<Rightarrow> pew \<Rightarrow> pew option" where
  "moveDownRepeatables C [] s = Some s"
| "moveDownRepeatables C (rep # reps) s =
     (case getContext s of None \<Rightarrow> None
      | Some c \<Rightarrow> moveDownRepeatables C reps
          (setContext (c_moveDown C (height rep) c) (logCall (CMoveDown (height rep)) s)))"

definition emptyPage :: page where
  "emptyPage = \<lparr> lines = [], vectors = [], height = None, xOffset = None \<rparr>"

definition moveToNextPage :: "collab \<Rightarrow> pew \<Rightarrow> completion \<times> pew" where
  "moveToNextPage C s =
     (case getContext s of None \<Rightarrow> (TypeError, s)
      | Some c \<Rightarrow>
          let nextPageIndex = pageIdx c + 1 in
          if nextPageIndex \<ge> int (length (pages c)) then
            (let c1 = c\<lparr>pages := pages c @ [emptyPage]\<rparr>;
                 c2 = c1\<lparr>pageIdx := nextPageIndex\<rparr>;
                 s1 = setContext (c_moveToPageTop C c2) (logCall CMoveToPageTop s)
             in case addRepeatables C (repeatables s1) s1 of
                  None \<Rightarrow> (TypeError, s1) | Some s2 \<Rightarrow> (Undefined, s2))
          else
            (let c1 = c\<lparr>pageIdx := nextPageIndex\<rparr>;
                 s1 = setContext (c_moveToPageTop C c1) (logCall CMoveToPageTop s)
             in case moveDownRepeatables C (repeatables s1) s1 of
                  None \<Rightarrow> (TypeError, s1) | Some s2 \<Rightarrow> (Undefined, s2)))"

subsection \<open>addLine, addVector, addFragment\<close>

definition addLine :: "collab \<Rightarrow> line \<Rightarrow> bool \<Rightarrow> pew \<Rightarrow> completion \<times> pew" where
  "addLine C l d s =
     (case writerAddLine C l d s of None \<Rightarrow> (TypeError, s)
      | Some (ok, s1) \<Rightarrow>
          if \<not> ok then
            (case moveToNextPage C s1 of
               (TypeError, s2) \<Rightarrow> (TypeError, s2)
             | (Undefined, s2) \<Rightarrow>
                 (case writerAddLine C l d s2 of None \<Rightarrow> (TypeError, s2)
                  | Some (ok2, s3) \<Rightarrow> (Undefined, s3)))
          else (Undefined, s1))"

definition addVector :: "collab \<Rightarrow> pvector \<Rightarrow> pew \<Rightarrow> completion \<times> pew" where
  "addVector C v s =
     (case writerAddVector C v s of None \<Rightarrow> (TypeError, s)
      | Some s1 \<Rightarrow> (Undefined, s1))"

definition addFragment :: "collab \<Rightarrow> fragment \<Rightarrow> pew \<Rightarrow> completion \<times> pew" where
  "addFragment C f s =
     (case writerAddFragment C f False s of None \<Rightarrow> (TypeError, s)
      | Some (ok, s1) \<Rightarrow>
          if \<not> ok then
            (case moveToNextPage C s1 of
               (TypeError, s2) \<Rightarrow> (TypeError, s2)
             | (Undefined, s2) \<Rightarrow>
                 (case writerAddFragment C f False s2 of None \<Rightarrow> (TypeError, s2)
                  | Some (ok2, s3) \<Rightarrow> (Undefined, s3)))
          else (Undefined, s1))"

subsection \<open>Unbreakable blocks\<close>

definition activateTransactionContext :: "pew \<Rightarrow> pew" where
  "activateTransactionContext s =
     logCall (WSetContext Transaction) (s\<lparr>contextRef := Transaction\<rparr>)"

definition removeTransactionContext :: "pew \<Rightarrow> pew" where
  "removeTransactionContext s =
     logCall (WSetContext Original) (s\<lparr>contextRef := Original\<rparr>)"

definition beginUnbreakableBlock :: "collab \<Rightarrow> pew \<Rightarrow> completion \<times> pew" where
  "beginUnbreakableBlock C s =
     (let s1 = s\<lparr>transactionLevel := transactionLevel s + 1\<rparr> in
      if transactionLevel s = 0 then
        (case getContext s1 of None \<Rightarrow> (TypeError, s1)
         | Some c \<Rightarrow>
             let s2 = logCall CCreateUnbreakableSubcontext s1;
                 s3 = s2\<lparr>transactionContext := Some (c_createUnbreakableSubcontext C c)\<rparr>
             in (Undefined, activateTransactionContext s3))
      else (Undefined, s1))"

definition commitUnbreakableBlock :: "collab \<Rightarrow> pew \<Rightarrow> completion \<times> pew" where
  "commitUnbreakableBlock C s =
     (let s1 = s\<lparr>transactionLevel := transactionLevel s - 1\<rparr> in
      if transactionLevel s1 = 0 then
        (let s2 = removeTransactionContext s1 in
         case transactionContext s2 of None \<Rightarrow> (TypeError, s2)
         | Some t \<Rightarrow>
             (case pages t of [] \<Rightarrow> (Undefined, s2)
              | p # ps \<Rightarrow>
                  let fragment = p\<lparr>height := Some (ctxY t)\<rparr>;
                      s3 = s2\<lparr>transactionContext := Some (t\<lparr>pages := fragment # ps\<rparr>)\<rparr>
                  in addFragment C fragment s3))
      else (Undefined, s1))"

subsection \<open>Call sequence of a page break; sample collaborators\<close>

definition pageBreakCalls :: "bool \<Rightarrow> fragment list \<Rightarrow> call list" where
  "pageBreakCalls isNew reps =
     CMoveToPageTop #
       (if isNew then map (\<lambda>rep. WAddFragment rep True) reps
        else map (\<lambda>rep. CMoveDown (height rep)) reps)"

definition needsNewPage :: "ctx \<Rightarrow> bool" where
  "needsNewPage c = (pageIdx c + 1 \<ge> int (length (pages c)))"


definition stubCollab :: collab where
  "stubCollab =
     \<lparr> w_addLine = (\<lambda>l d c. if ctxY c < 100 then (True, c\<lparr>ctxY := ctxY c + 10\<rparr>) else (False, c)),
       w_addVector = (\<lambda>v c. c),
       w_addFragment = (\<lambda>f u c. if u \<or> ctxY c < 100 then (True, c\<lparr>ctxY := ctxY c + 10\<rparr>) else (False, c)),
       c_moveToPageTop = (\<lambda>c. c\<lparr>ctxY := 0\<rparr>),
       c_moveDown = (\<lambda>h c. c\<lparr>ctxY := ctxY c + (case h of None \<Rightarrow> 0 | Some r \<Rightarrow> r)\<rparr>),
       c_createUnbreakableSubcontext =
         (\<lambda>c. \<lparr> pageIdx = 0, pages = [emptyPage], ctxX = ctxX c, ctxY = 0 \<rparr>) \<rparr>"

definition neverFits :: collab where
  "neverFits = stubCollab\<lparr> w_addLine := (\<lambda>l d c. (False, c)),
                            w_addFragment := (\<lambda>f u c. (False, c)) \<rparr>"

definition ctxFull :: ctx where
  "ctxFull = \<lparr> pageIdx = 0, pages = [emptyPage], ctxX = 0, ctxY = 100 \<rparr>"

definition rep0 :: fragment where
  "rep0 = \<lparr> lines = [Line ''header''], vectors = [], height = Some 20, xOffset = Some 0 \<rparr>"

definition line0 :: line where
  "line0 = Line ''text''"

section \<open>Document measurement (src/docMeasure.js)\<close>

subsection \<open>Numbers\<close>

text \<open>
  Widths are JavaScript numbers. The finite ones are modelled as reals; \<open>NaN\<close> is
  kept, because it is what arithmetic on a missing property (\<open>undefined\<close>)
  produces. A property that may be missing is an \<open>option\<close>.
\<close>

datatype jsnum = Num real | NaN

fun jsAdd :: "jsnum \<Rightarrow> jsnum \<Rightarrow> jsnum" where
  "jsAdd (Num a) (Num b) = Num (a + b)"
| "jsAdd _ _ = NaN"

fun jsMax :: "jsnum \<Rightarrow> jsnum \<Rightarrow> jsnum" where
  "jsMax (Num a) (Num b) = Num (max a b)"
| "jsMax _ _ = NaN"

fun jsLe :: "jsnum \<Rightarrow> jsnum \<Rightarrow> bool" where
  "jsLe (Num a) (Num b) = (a \<le> b)"
| "jsLe _ _ = False"

fun toNumber :: "jsnum option \<Rightarrow> jsnum" where
  "toNumber None = NaN"
| "toNumber (Some v) = v"

definition nthNum :: "real list \<Rightarrow> nat \<Rightarrow> jsnum" where
  "nthNum xs i = (if i < length xs then Num (xs ! i) else NaN)"

subsection \<open>Decimal representation of a counter\<close>

definition digitChar :: "nat \<Rightarrow> char" where
  "digitChar d = ''0123456789'' ! d"

fun toString :: "nat \<Rightarrow> string" where
  "toString n = (if n < 10 then [digitChar n] else toString (n div 10) @ [digitChar (n mod 10)])"

declare toString.simps [simp del]

subsection \<open>Data\<close>

text \<open>
  An entry of a canvas array is tagged by its \<open>type\<close> property; \<open>Other\<close> stands
  for every type the \<open>switch\<close> of \<open>measureCanvas\<close> has no case for, and
  \<open>NullEntry\<close> for an entry that is \<open>null\<close> or \<open>undefined\<close>, which has no
  properties to read. The \<open>points\<close> of a polyline may be missing (\<open>None\<close>), and
  so may a single point of the array. Colour and the other paint attributes are
  never read by the measurement and are left out.
\<close>

datatype vector =
    Ellipse real real real real
  | Rect real real real real
  | LineV real real real real
  | Polyline "(real \<times> real) option list option"
  | Other string
  | NullEntry

datatype marginSpec = MNum real | MArr "real list"

datatype styleRef = StyleName string | StyleList "string list"

record styleDef =
  sd_margin :: "marginSpec option"

type_synonym inline = "string \<times> real"

record inlines =
  items :: "inline list"
  minWidth :: real
  maxWidth :: real

record gapSize =
  gs_width :: real
  gs_height :: real
  gs_fontSize :: real
  gs_decender :: real

record marker =
  m_inlines :: "inline list option"
  m_canvas :: "vector list option"
  m_minWidth :: real
  m_maxWidth :: real
  m_minHeight :: real
  m_maxHeight :: real

datatype widthVal = WNum real | WStr string

record widthDesc =
  width :: "widthVal option"
  w_minWidth :: "jsnum option"
  w_maxWidth :: "jsnum option"

datatype widthEntry = WBare widthVal | WDesc widthDesc

datatype widthsSpec = WsNum real | WsStr string | WsArr "widthEntry list"

datatype 'n tbl = Tbl (body: "'n list list") (widths: "widthsSpec option")
  (t_minWidth: "jsnum option") (t_maxWidth: "jsnum option")

record attrs =
  ntext :: "string option"
  canvas :: "vector list option"
  margin :: "marginSpec option"
  style :: "styleRef option"
  counter :: "string option"
  u_margin :: "real list option"
  u_minWidth :: "jsnum option"
  u_maxWidth :: "jsnum option"
  u_minHeight :: "jsnum option"
  u_maxHeight :: "jsnum option"
  u_inlines :: "inline list option"
  u_gap :: "real option"
  u_gapSize :: "gapSize option"
  listMarker :: "marker option"

text \<open>
  A document node is an array (shorthand for a stack), a string (shorthand for a
  text leaf) or an object. The properties that hold child nodes are the fields of
  \<open>Obj\<close>; all other properties are in \<open>attrs\<close>, where the ones written by the
  measurement (\<open>_margin\<close>, \<open>_minWidth\<close>, ...) have the prefix \<open>u_\<close>.
\<close>

datatype node =
    Arr "node list"
  | Str string
  | Obj (columns: "node list option") (stack: "node list option")
        (ul: "node list option") (ol: "node list option")
        (table: "node tbl option") (attrs: attrs)

datatype measureError = UnrecognizedDocumentStructure | JsTypeError

text \<open>
  The collaborators of \<open>DocMeasure\<close>: the style dictionary, \<open>TextTools\<close> and the
  style context stack \<open>'st\<close>. \<open>styleStack.auto(node, f)\<close> runs \<open>f\<close> with the
  node's styles pushed; \<open>autoPush\<close> is the stack inside the callback.
\<close>

record 'st env =
  styleDictionary :: "string \<Rightarrow> styleDef option"
  autoPush :: "styleRef option \<Rightarrow> 'st \<Rightarrow> 'st"
  buildInlines :: "string \<Rightarrow> 'st \<Rightarrow> inlines"
  sizeOfString :: "string \<Rightarrow> 'st \<Rightarrow> gapSize"
  getColumnGap :: "'st \<Rightarrow> real option"

definition emptyAttrs :: attrs where
  "emptyAttrs = \<lparr> ntext = None, canvas = None, margin = None, style = None, counter = None,
     u_margin = None, u_minWidth = None, u_maxWidth = None, u_minHeight = None,
     u_maxHeight = None, u_inlines = None, u_gap = None, u_gapSize = None, listMarker = None \<rparr>"

fun nodeMinWidth :: "node \<Rightarrow> jsnum option" where
  "nodeMinWidth (Obj cs ss us os tb a) = u_minWidth a"
| "nodeMinWidth _ = None"

fun nodeMaxWidth :: "node \<Rightarrow> jsnum option" where
  "nodeMaxWidth (Obj cs ss us os tb a) = u_maxWidth a"
| "nodeMaxWidth _ = None"

subsection \<open>measureCanvas\<close>

text \<open>
  Reading \<open>vector.type\<close> of a null entry, \<open>vector.points.length\<close> of a polyline
  without points, or \<open>.x\<close> of a null point throws a TypeError, which ends the
  measurement.
\<close>

fun polylineLoop :: "(real \<times> real) option list \<Rightarrow> real \<times> real \<Rightarrow> measureError + real \<times> real" where
  "polylineLoop [] wh = Inr wh"
| "polylineLoop (None # ps) wh = Inl JsTypeError"
| "polylineLoop (Some (px, py) # ps) (w, h) = polylineLoop ps (max w px, max h py)"

fun canvasStep :: "vector \<Rightarrow> real \<times> real \<Rightarrow> measureError + real \<times> real" where
  "canvasStep (Ellipse vx vy r1 r2) (w, h) = Inr (max w (vx + r1), max h (vy + r2))"
| "canvasStep (Rect vx vy vw vh) (w, h) = Inr (max w (vx + vw), max h (vy + vh))"
| "canvasStep (LineV x1 y1 x2 y2) (w, h) = Inr (max w (max x1 x2), max h (max y1 y2))"
| "canvasStep (Polyline None) (w, h) = Inl JsTypeError"
| "canvasStep (Polyline (Some pts)) (w, h) = polylineLoop pts (w, h)"
| "canvasStep (Other t) (w, h) = Inr (w, h)"
| "canvasStep NullEntry (w, h) = Inl JsTypeError"

fun canvasLoop :: "vector list \<Rightarrow> real \<times> real \<Rightarrow> measureError + real \<times> real" where
  "canvasLoop [] wh = Inr wh"
| "canvasLoop (v # vs) wh =
     (case canvasStep v wh of Inl e \<Rightarrow> Inl e | Inr wh' \<Rightarrow> canvasLoop vs wh')"

definition measureCanvas :: "attrs \<Rightarrow> measureError + attrs" where
  "measureCanvas a =
     (case canvas a of None \<Rightarrow> Inl JsTypeError
      | Some vs \<Rightarrow>
          (case canvasLoop vs (0, 0) of
             Inl e \<Rightarrow> Inl e
           | Inr (w, h) \<Rightarrow>
               Inr (a\<lparr> u_minWidth := Some (Num w), u_maxWidth := Some (Num w),
                       u_minHeight := Some (Num h), u_maxHeight := Some (Num h) \<rparr>)))"

subsection \<open>getNodeMargin and extendMargins\<close>

fun marginTruthy :: "marginSpec option \<Rightarrow> bool" where
  "marginTruthy None = False"
| "marginTruthy (Some (MNum r)) = (r \<noteq> 0)"
| "marginTruthy (Some (MArr xs)) = True"

fun styleTruthy :: "styleRef option \<Rightarrow> bool" where
  "styleTruthy None = False"
| "styleTruthy (Some (StyleName s)) = (s \<noteq> [])"
| "styleTruthy (Some (StyleList ss)) = True"

text \<open>
  \<open>styleDictionary[node.style]\<close> converts \<open>node.style\<close> to a property key: a
  string is its own key, an array is joined with commas.
\<close>

fun joinComma :: "string list \<Rightarrow> string" where
  "joinComma [] = []"
| "joinComma [s] = s"
| "joinComma (s # t # ss) = s @ '','' @ joinComma (t # ss)"

fun propertyKey :: "styleRef \<Rightarrow> string" where
  "propertyKey (StyleName s) = s"
| "propertyKey (StyleList ss) = joinComma ss"

fun styleArray :: "styleRef \<Rightarrow> string list" where
  "styleArray (StyleName s) = [s]"
| "styleArray (StyleList ss) = ss"

text \<open>
  The loop \<open>for (i = styleArray.length - 1; i >= 0; i--)\<close>, given the names from
  the last to the first. \<open>styleName\<close> is assigned and not used: the dictionary is
  read at \<open>node.style\<close>.
\<close>

fun styleLoop :: "(string \<Rightarrow> styleDef option) \<Rightarrow> styleRef \<Rightarrow> string list \<Rightarrow> marginSpec option" where
  "styleLoop dict nodeStyle [] = None"
| "styleLoop dict nodeStyle (styleName # rest) =
     (case dict (propertyKey nodeStyle) of
        None \<Rightarrow> styleLoop dict nodeStyle rest
      | Some sty \<Rightarrow>
          if marginTruthy (sd_margin sty) then sd_margin sty
          else styleLoop dict nodeStyle rest)"

definition getNodeMargin :: "'st env \<Rightarrow> attrs \<Rightarrow> real list option" where
  "getNodeMargin E a =
     (let m0 = margin a;
          m1 = (if \<not> marginTruthy m0 \<and> styleTruthy (style a) then
                  (case style a of None \<Rightarrow> m0
                   | Some sr \<Rightarrow>
                       (case styleLoop (styleDictionary E) sr (rev (styleArray sr)) of
                          None \<Rightarrow> m0 | Some m \<Rightarrow> Some m))
                else m0)
      in if \<not> marginTruthy m1 then None
         else (case m1 of None \<Rightarrow> None
               | Some (MNum r) \<Rightarrow> Some [r, r, r, r]
               | Some (MArr xs) \<Rightarrow>
                   if length xs = 2 then Some [xs ! 0, xs ! 1, xs ! 0, xs ! 1] else Some xs))"

definition extendMargins :: "attrs \<Rightarrow> attrs" where
  "extendMargins a =
     (case u_margin a of None \<Rightarrow> a
      | Some m \<Rightarrow>
          a\<lparr> u_minWidth := Some (jsAdd (toNumber (u_minWidth a)) (jsAdd (nthNum m 0) (nthNum m 2))),
             u_maxWidth := Some (jsAdd (toNumber (u_maxWidth a)) (jsAdd (nthNum m 0) (nthNum m 2))) \<rparr>)"

subsection \<open>measureLeaf\<close>

definition measureLeaf :: "'st env \<Rightarrow> 'st \<Rightarrow> attrs \<Rightarrow> measureError + attrs" where
  "measureLeaf E st a =
     (case ntext a of None \<Rightarrow> Inl JsTypeError
      | Some t \<Rightarrow>
          let data = buildInlines E t st in
          Inr (a\<lparr> u_inlines := Some (items data), u_minWidth := Some (Num (minWidth data)),
                  u_maxWidth := Some (Num (maxWidth data)) \<rparr>))"

subsection \<open>measureVerticalContainer and measureColumns\<close>

text \<open>
  The loops take \<open>this.measureNode\<close> as the parameter \<open>f\<close>. An exception thrown
  by the measurement of an item ends the loop.
\<close>

fun stackLoop :: "(node \<Rightarrow> measureError + node) \<Rightarrow> node list \<Rightarrow> jsnum \<times> jsnum
    \<Rightarrow> measureError + (node list \<times> jsnum \<times> jsnum)" where
  "stackLoop f [] acc = Inr ([], acc)"
| "stackLoop f (item # rest) (mn, mx) =
     (case f item of Inl e \<Rightarrow> Inl e
      | Inr item' \<Rightarrow>
          (case stackLoop f rest (jsMax mn (toNumber (nodeMinWidth item')),
                                  jsMax mx (toNumber (nodeMaxWidth item'))) of
             Inl e \<Rightarrow> Inl e
           | Inr (rest', acc') \<Rightarrow> Inr (item' # rest', acc')))"

fun columnsLoop :: "(node \<Rightarrow> measureError + node) \<Rightarrow> node list \<Rightarrow> jsnum \<times> jsnum
    \<Rightarrow> measureError + (node list \<times> jsnum \<times> jsnum)" where
  "columnsLoop f [] acc = Inr ([], acc)"
| "columnsLoop f (item # rest) (mn, mx) =
     (case f item of Inl e \<Rightarrow> Inl e
      | Inr item' \<Rightarrow>
          (case columnsLoop f rest (jsAdd mn (toNumber (nodeMinWidth item')),
                                    jsAdd mx (toNumber (nodeMaxWidth item'))) of
             Inl e \<Rightarrow> Inl e
           | Inr (rest', acc') \<Rightarrow> Inr (item' # rest', acc')))"

subsection \<open>Lists\<close>

definition gapSizeForList :: "'st env \<Rightarrow> 'st \<Rightarrow> bool \<Rightarrow> node list \<Rightarrow> gapSize" where
  "gapSizeForList E st isOrderedList listItems =
     (if isOrderedList then
        sizeOfString E (map (\<lambda>c. CHR ''9'') (toString (length listItems)) @ ''. '') st
      else sizeOfString E ''9. '' st)"

definition buildMarker :: "'st env \<Rightarrow> bool \<Rightarrow> string \<Rightarrow> 'st \<Rightarrow> gapSize \<Rightarrow> marker" where
  "buildMarker E isOrderedList cnt styleStack gap =
     (if isOrderedList then
        \<lparr> m_inlines = Some (items (buildInlines E cnt styleStack)), m_canvas = None,
          m_minWidth = gs_width gap, m_maxWidth = gs_width gap,
          m_minHeight = gs_height gap, m_maxHeight = gs_height gap \<rparr>
      else
        (let radius = gs_fontSize gap / 6 in
         \<lparr> m_inlines = None,
           m_canvas = Some [Ellipse radius (gs_height gap + gs_decender gap - gs_fontSize gap / 3)
                              radius radius],
           m_minWidth = gs_width gap, m_maxWidth = gs_width gap,
           m_minHeight = gs_height gap, m_maxHeight = gs_height gap \<rparr>))"

fun isNestedList :: "node \<Rightarrow> bool" where
  "isNestedList (Obj cs ss us os tb a) = (os \<noteq> None \<or> us \<noteq> None)"
| "isNestedList _ = False"

fun counterOr :: "node \<Rightarrow> string \<Rightarrow> string" where
  "counterOr (Obj cs ss us os tb a) mk =
     (case counter a of None \<Rightarrow> mk | Some c \<Rightarrow> if c = [] then mk else c)"
| "counterOr _ mk = mk"

fun setListMarker :: "marker \<Rightarrow> node \<Rightarrow> node" where
  "setListMarker m (Obj cs ss us os tb a) = Obj cs ss us os tb (a\<lparr>listMarker := Some m\<rparr>)"
| "setListMarker m n = n"

fun listLoop :: "'st env \<Rightarrow> 'st \<Rightarrow> (node \<Rightarrow> measureError + node) \<Rightarrow> bool \<Rightarrow> gapSize
    \<Rightarrow> node list \<Rightarrow> nat \<Rightarrow> jsnum \<times> jsnum \<Rightarrow> measureError + (node list \<times> jsnum \<times> jsnum)" where
  "listLoop E sty f isOrdered gap [] cnt acc = Inr ([], acc)"
| "listLoop E sty f isOrdered gap (item # rest) cnt (mn, mx) =
     (case f item of Inl e \<Rightarrow> Inl e
      | Inr measured \<Rightarrow>
          let mk = toString cnt @ ''. '';
              nextItem =
                (if \<not> isNestedList measured
                 then setListMarker (buildMarker E isOrdered (counterOr measured mk) sty gap) measured
                 else measured)
          in (case listLoop E sty f isOrdered gap rest (cnt + 1)
                     (jsMax mn (jsAdd (toNumber (nodeMinWidth nextItem)) (Num (gs_width gap))),
                      jsMax mx (jsAdd (toNumber (nodeMaxWidth nextItem)) (Num (gs_width gap)))) of
                Inl e \<Rightarrow> Inl e
              | Inr (rest', acc') \<Rightarrow> Inr (nextItem # rest', acc')))"

subsection \<open>Tables\<close>

fun widthsTruthy :: "widthsSpec option \<Rightarrow> bool" where
  "widthsTruthy None = False"
| "widthsTruthy (Some (WsNum r)) = (r \<noteq> 0)"
| "widthsTruthy (Some (WsStr s)) = (s \<noteq> [])"
| "widthsTruthy (Some (WsArr ws)) = True"

function pushLast :: "widthEntry list \<Rightarrow> nat \<Rightarrow> widthEntry list" where
  "pushLast ws n = (if length ws < n then pushLast (ws @ [last ws]) n else ws)"
  by pat_completeness auto
termination
  by (relation "measure (\<lambda>(ws, n). n - length ws)") auto

declare pushLast.simps [simp del]

fun wrapWidth :: "widthEntry \<Rightarrow> widthEntry" where
  "wrapWidth (WBare v) = WDesc \<lparr> width = Some v, w_minWidth = None, w_maxWidth = None \<rparr>"
| "wrapWidth (WDesc d) = WDesc d"

fun extendTableWidths :: "node tbl \<Rightarrow> measureError + node tbl" where
  "extendTableWidths (Tbl b w mn mx) =
     (let w0 = (if \<not> widthsTruthy w then Some (WsStr ''auto'') else w) in
      case w0 of
        Some (WsStr s) \<Rightarrow>
          (case b of [] \<Rightarrow> Inl JsTypeError
           | row0 # rows \<Rightarrow>
               Inr (Tbl b (Some (WsArr (map wrapWidth (pushLast [WBare (WStr s)] (length row0)))))
                      mn mx))
      | Some (WsArr ws) \<Rightarrow> Inr (Tbl b (Some (WsArr (map wrapWidth ws))) mn mx)
      | _ \<Rightarrow> Inr (Tbl b w0 mn mx))"

text \<open>
  \<open>body[row][col]\<close> is read once, before it is overwritten with its measured
  value, so the cells of a column are taken from the body as it was passed in
  (\<open>undefined\<close>, here \<open>None\<close>, where a row is too short), measured from the first
  row to the last, and written back.
\<close>

definition column :: "node list list \<Rightarrow> nat \<Rightarrow> node option list" where
  "column b col = map (\<lambda>row. if col < length row then Some (row ! col) else None) b"

definition putColumn :: "nat \<Rightarrow> node list \<Rightarrow> node list list \<Rightarrow> node list list" where
  "putColumn col cells b = map (\<lambda>(row, cell). row[col := cell]) (zip b cells)"

fun rowLoop :: "(node \<Rightarrow> measureError + node) \<Rightarrow> node option list \<Rightarrow> jsnum \<times> jsnum
    \<Rightarrow> measureError + (node list \<times> jsnum \<times> jsnum)" where
  "rowLoop f [] acc = Inr ([], acc)"
| "rowLoop f (None # rest) acc = Inl JsTypeError"
| "rowLoop f (Some cell # rest) (mn, mx) =
     (case f cell of Inl e \<Rightarrow> Inl e
      | Inr cell' \<Rightarrow>
          (case rowLoop f rest (jsMax mn (toNumber (nodeMinWidth cell')),
                                jsMax mx (toNumber (nodeMaxWidth cell'))) of
             Inl e \<Rightarrow> Inl e
           | Inr (rest', acc') \<Rightarrow> Inr (cell' # rest', acc')))"

text \<open>
  \<open>node.table.widths[col]._minWidth = 0\<close> throws unless \<open>widths\<close> is an array with
  an object at \<open>col\<close> (the file is in strict mode).
\<close>

fun setColumnBounds :: "widthsSpec option \<Rightarrow> nat \<Rightarrow> jsnum \<Rightarrow> jsnum \<Rightarrow> measureError + widthsSpec option" where
  "setColumnBounds (Some (WsArr ws)) col mn mx =
     (if col < length ws then
        (case ws ! col of
           WBare v \<Rightarrow> Inl JsTypeError
         | WDesc d \<Rightarrow>
             Inr (Some (WsArr (ws[col := WDesc (d\<lparr> w_minWidth := Some mn, w_maxWidth := Some mx \<rparr>)]))))
      else Inl JsTypeError)"
| "setColumnBounds w col mn mx = Inl JsTypeError"

fun colLoop :: "(node \<Rightarrow> measureError + node) \<Rightarrow> node list list \<Rightarrow> nat list \<Rightarrow> node tbl
    \<Rightarrow> measureError + node tbl" where
  "colLoop f b0 [] t = Inr t"
| "colLoop f b0 (col # cols) (Tbl b w mn mx) =
     (case setColumnBounds w col (Num 0) (Num 0) of Inl e \<Rightarrow> Inl e
      | Inr w1 \<Rightarrow>
          (case rowLoop f (column b0 col) (Num 0, Num 0) of Inl e \<Rightarrow> Inl e
           | Inr (cells, (cmn, cmx)) \<Rightarrow>
               (case setColumnBounds w1 col cmn cmx of Inl e \<Rightarrow> Inl e
                | Inr w2 \<Rightarrow>
                    colLoop f b0 cols
                      (Tbl (putColumn col cells b) w2
                         (Some (jsAdd (toNumber mn) cmn)) (Some (jsAdd (toNumber mx) cmx))))))"

definition measureTable :: "(node \<Rightarrow> measureError + node) \<Rightarrow> node tbl \<Rightarrow> measureError + node tbl" where
  "measureTable f t =
     (case extendTableWidths t of Inl e \<Rightarrow> Inl e
      | Inr (Tbl b w mn mx) \<Rightarrow>
          (case b of [] \<Rightarrow> Inl JsTypeError
           | row0 # rows \<Rightarrow>
               colLoop f b [0..<length row0] (Tbl b w (Some (Num 0)) (Some (Num 0)))))"

subsection \<open>measureNode\<close>

definition measureList :: "'st env \<Rightarrow> 'st \<Rightarrow> (node \<Rightarrow> measureError + node) \<Rightarrow> bool
    \<Rightarrow> node list \<Rightarrow> attrs \<Rightarrow> measureError + (node list \<times> attrs)" where
  "measureList E st f isOrdered its a =
     (let gap = gapSizeForList E st isOrdered its in
      case listLoop E st f isOrdered gap its 1 (Num 0, Num 0) of
        Inl e \<Rightarrow> Inl e
      | Inr (its', (mn, mx)) \<Rightarrow>
          Inr (its', a\<lparr> u_gapSize := Some gap, u_minWidth := Some mn, u_maxWidth := Some mx \<rparr>))"

definition measureVerticalContainer :: "(node \<Rightarrow> measureError + node) \<Rightarrow> node list \<Rightarrow> attrs
    \<Rightarrow> measureError + (node list \<times> attrs)" where
  "measureVerticalContainer f its a =
     (case stackLoop f its (Num 0, Num 0) of
        Inl e \<Rightarrow> Inl e
      | Inr (its', (mn, mx)) \<Rightarrow> Inr (its', a\<lparr> u_minWidth := Some mn, u_maxWidth := Some mx \<rparr>))"

definition measureColumns :: "'st env \<Rightarrow> 'st \<Rightarrow> (node \<Rightarrow> measureError + node) \<Rightarrow> node list \<Rightarrow> attrs
    \<Rightarrow> measureError + (node list \<times> attrs)" where
  "measureColumns E st f its a =
     (case columnsLoop f its (Num 0, Num 0) of
        Inl e \<Rightarrow> Inl e
      | Inr (its', (mn, mx)) \<Rightarrow>
          Inr (its', a\<lparr> u_gap := getColumnGap E st, u_minWidth := Some mn, u_maxWidth := Some mx \<rparr>))"

text \<open>
  The callback of \<open>measureNode\<close>, after the shortcuts are expanded: \<open>st\<close> is the
  style stack with the node pushed and \<open>f\<close> is \<open>self.measureNode\<close> under that
  stack. The variants are tried in the order of the source; arrays and objects
  are truthy, the empty string is not.
\<close>

definition measureObject :: "'st env \<Rightarrow> 'st \<Rightarrow> (node \<Rightarrow> measureError + node)
    \<Rightarrow> node list option \<Rightarrow> node list option \<Rightarrow> node list option \<Rightarrow> node list option
    \<Rightarrow> node tbl option \<Rightarrow> attrs \<Rightarrow> measureError + node" where
  "measureObject E st f cs ss us os tb a0 =
     (let a = a0\<lparr> u_margin := getNodeMargin E a0 \<rparr> in
      case cs of
        Some its \<Rightarrow>
          (case measureColumns E st f its a of Inl e \<Rightarrow> Inl e
           | Inr (its', a') \<Rightarrow> Inr (Obj (Some its') ss us os tb (extendMargins a')))
      | None \<Rightarrow>
      (case ss of
        Some its \<Rightarrow>
          (case measureVerticalContainer f its a of Inl e \<Rightarrow> Inl e
           | Inr (its', a') \<Rightarrow> Inr (Obj cs (Some its') us os tb (extendMargins a')))
      | None \<Rightarrow>
      (case us of
        Some its \<Rightarrow>
          (case measureList E st f False its a of Inl e \<Rightarrow> Inl e
           | Inr (its', a') \<Rightarrow> Inr (Obj cs ss (Some its') os tb (extendMargins a')))
      | None \<Rightarrow>
      (case os of
        Some its \<Rightarrow>
          (case measureList E st f True its a of Inl e \<Rightarrow> Inl e
           | Inr (its', a') \<Rightarrow> Inr (Obj cs ss us (Some its') tb (extendMargins a')))
      | None \<Rightarrow>
      (case tb of
        Some t \<Rightarrow>
          (case measureTable f t of Inl e \<Rightarrow> Inl e
           | Inr t' \<Rightarrow> Inr (Obj cs ss us os (Some t') (extendMargins a)))
      | None \<Rightarrow>
          if ntext a \<noteq> None \<and> ntext a \<noteq> Some [] then
            (case measureLeaf E st a of Inl e \<Rightarrow> Inl e
             | Inr a' \<Rightarrow> Inr (Obj cs ss us os tb (extendMargins a')))
          else if canvas a \<noteq> None then
            (case measureCanvas a of Inl e \<Rightarrow> Inl e
             | Inr a' \<Rightarrow> Inr (Obj cs ss us os tb (extendMargins a')))
          else Inl UnrecognizedDocumentStructure)))))"

definition childNodes :: "node list option \<Rightarrow> node list option \<Rightarrow> node list option
    \<Rightarrow> node list option \<Rightarrow> node tbl option \<Rightarrow> node set" where
  "childNodes cs ss us os tb =
     (case cs of None \<Rightarrow> {} | Some its \<Rightarrow> set its)
     \<union> (case ss of None \<Rightarrow> {} | Some its \<Rightarrow> set its)
     \<union> (case us of None \<Rightarrow> {} | Some its \<Rightarrow> set its)
     \<union> (case os of None \<Rightarrow> {} | Some its \<Rightarrow> set its)
     \<union> (case tb of None \<Rightarrow> {} | Some t \<Rightarrow> set (concat (body t)))"

lemma stackLoop_cong:
  "(\<And>n. n \<in> set its \<Longrightarrow> f n = g n) \<Longrightarrow> stackLoop f its acc = stackLoop g its acc"
  by (induction f its acc rule: stackLoop.induct) (auto split: sum.splits prod.splits)

lemma columnsLoop_cong:
  "(\<And>n. n \<in> set its \<Longrightarrow> f n = g n) \<Longrightarrow> columnsLoop f its acc = columnsLoop g its acc"
  by (induction f its acc rule: columnsLoop.induct) (auto split: sum.splits prod.splits)

lemma listLoop_cong:
  "(\<And>n. n \<in> set its \<Longrightarrow> f n = g n)
   \<Longrightarrow> listLoop E sty f isOrdered gap its cnt acc = listLoop E sty g isOrdered gap its cnt acc"
  by (induction E sty f isOrdered gap its cnt acc rule: listLoop.induct)
     (auto simp: Let_def split: sum.splits prod.splits)

lemma rowLoop_cong:
  "(\<And>n. Some n \<in> set cells \<Longrightarrow> f n = g n) \<Longrightarrow> rowLoop f cells acc = rowLoop g cells acc"
  by (induction f cells acc rule: rowLoop.induct) (auto split: sum.splits prod.splits)

lemma column_subset: "Some n \<in> set (column b col) \<Longrightarrow> n \<in> set (concat b)"
  by (auto simp: column_def split: if_splits intro: nth_mem)

lemma colLoop_cong:
  "(\<And>n. n \<in> set (concat b0) \<Longrightarrow> f n = g n) \<Longrightarrow> colLoop f b0 cols t = colLoop g b0 cols t"
proof (induction f b0 cols t rule: colLoop.induct)
  case (1 f b0 t)
  then show ?case by simp
next
  case (2 f b0 col cols b w mn mx)
  have r: "rowLoop f (column b0 col) acc = rowLoop g (column b0 col) acc" for acc
    by (rule rowLoop_cong) (auto dest: column_subset intro: "2.prems")
  show ?case
    using "2.IH" "2.prems" by (simp add: r split: sum.splits prod.splits)
qed

lemma extendTableWidths_body: "extendTableWidths t = Inr t' \<Longrightarrow> body t' = body t"
proof (cases t)
  case (Tbl b w mn mx)
  assume "extendTableWidths t = Inr t'"
  then show ?thesis
    unfolding Tbl extendTableWidths.simps Let_def
    by (cases "if \<not> widthsTruthy w then Some (WsStr ''auto'') else w")
       (auto split: widthsSpec.splits list.splits)
qed

lemma measureTable_cong:
  assumes "\<And>n. n \<in> set (concat (body t)) \<Longrightarrow> f n = g n"
  shows "measureTable f t = measureTable g t"
proof (cases "extendTableWidths t")
  case (Inl e)
  then show ?thesis by (simp add: measureTable_def)
next
  case (Inr t')
  obtain b w mn mx where t': "t' = Tbl b w mn mx" by (cases t')
  from extendTableWidths_body [OF Inr] t' have b: "b = body t" by simp
  have c: "colLoop f b cols u = colLoop g b cols u" for cols u
    by (rule colLoop_cong) (simp add: b assms)
  show ?thesis
  proof (cases b)
    case Nil
    then show ?thesis by (simp add: measureTable_def Inr t')
  next
    case (Cons row0 rows)
    with c [of "[0..<length row0]"] show ?thesis by (simp add: measureTable_def Inr t')
  qed
qed

lemma measureObject_cong [fundef_cong]:
  assumes "E = E'" "st = st'" "cs = cs'" "ss = ss'" "us = us'" "os = os'" "tb = tb'" "a = a'"
    and "\<And>n. n \<in> childNodes cs' ss' us' os' tb' \<Longrightarrow> f n = g n"
  shows "measureObject E st f cs ss us os tb a = measureObject E' st' g cs' ss' us' os' tb' a'"
proof -
  have 1: "cs' = Some its \<Longrightarrow> columnsLoop f its acc = columnsLoop g its acc" for its acc
    by (rule columnsLoop_cong) (auto intro!: assms(9) simp: childNodes_def)
  have 2: "ss' = Some its \<Longrightarrow> stackLoop f its acc = stackLoop g its acc" for its acc
    by (rule stackLoop_cong) (auto intro!: assms(9) simp: childNodes_def)
  have 3: "us' = Some its \<Longrightarrow> listLoop E' sty f o' gap its cnt acc = listLoop E' sty g o' gap its cnt acc"
    for its acc sty o' gap cnt
    by (rule listLoop_cong) (auto intro!: assms(9) simp: childNodes_def)
  have 4: "os' = Some its \<Longrightarrow> listLoop E' sty f o' gap its cnt acc = listLoop E' sty g o' gap its cnt acc"
    for its acc sty o' gap cnt
    by (rule listLoop_cong) (auto intro!: assms(9) simp: childNodes_def)
  have 5: "tb' = Some t \<Longrightarrow> measureTable f t = measureTable g t" for t
    by (rule measureTable_cong) (auto intro!: assms(9) simp: childNodes_def)
  show ?thesis
    unfolding assms(1-8) measureObject_def measureColumns_def measureVerticalContainer_def
      measureList_def
    by (simp add: 1 2 3 4 5 Let_def split: option.splits)
qed

lemma size_in_list: "n \<in> set its \<Longrightarrow> size n < Suc (size_list size its)"
  by (induction its) auto

lemma size_in_body: "n \<in> set (concat b) \<Longrightarrow> size n < Suc (size_list (size_list size) b)"
proof (induction b)
  case Nil
  then show ?case by simp
next
  case (Cons row b)
  from Cons.prems have "n \<in> set row \<or> n \<in> set (concat b)" by simp
  then show ?case
  proof
    assume "n \<in> set row"
    from size_in_list [OF this] show ?thesis by simp
  next
    assume "n \<in> set (concat b)"
    from Cons.IH [OF this] show ?thesis by simp
  qed
qed

lemma size_in_option: "its = Some xs \<Longrightarrow> n \<in> set xs \<Longrightarrow> size n < Suc (size_option (size_list size) its)"
  using size_in_list [of n xs] by simp

lemma size_in_tbl: "tb = Some t \<Longrightarrow> n \<in> set (concat (body t)) \<Longrightarrow> size n < Suc (size_option (size_tbl size) tb)"
  using size_in_body [of n "body t"] by (cases t) simp

lemma childNodes_size:
  assumes "n \<in> childNodes cs ss us os tb"
  shows "size n < size (Obj cs ss us os tb a)"
proof -
  from assms consider
      (c) xs where "cs = Some xs" "n \<in> set xs"
    | (s) xs where "ss = Some xs" "n \<in> set xs"
    | (u) xs where "us = Some xs" "n \<in> set xs"
    | (o) xs where "os = Some xs" "n \<in> set xs"
    | (t) t where "tb = Some t" "n \<in> set (concat (body t))"
    unfolding childNodes_def by (auto split: option.splits)
  then show ?thesis
  proof cases
    case c
    from size_in_option [OF c] show ?thesis by simp
  next
    case s
    from size_in_option [OF s] show ?thesis by simp
  next
    case u
    from size_in_option [OF u] show ?thesis by simp
  next
    case o
    from size_in_option [OF o] show ?thesis by simp
  next
    case t
    from size_in_tbl [OF t] show ?thesis by simp
  qed
qed

function measureNode :: "'st env \<Rightarrow> 'st \<Rightarrow> node \<Rightarrow> measureError + node" where
  "measureNode E st (Arr xs) =
     measureObject E (autoPush E None st) (measureNode E (autoPush E None st))
       None (Some xs) None None None emptyAttrs"
| "measureNode E st (Str t) =
     measureObject E (autoPush E None st) (measureNode E (autoPush E None st))
       None None None None None (emptyAttrs\<lparr> ntext := Some t \<rparr>)"
| "measureNode E st (Obj cs ss us os tb a) =
     measureObject E (autoPush E (style a) st) (measureNode E (autoPush E (style a) st))
       cs ss us os tb a"
  by pat_completeness auto
termination
  apply (relation "measure (\<lambda>(E, st, n). size n)")
    apply simp
   apply (auto simp: childNodes_def dest: size_in_list)[2]
  apply (simp add: childNodes_size [simplified])
  done

definition measureDocument :: "'st env \<Rightarrow> 'st \<Rightarrow> node \<Rightarrow> measureError + node" where
  "measureDocument E st docStructure = measureNode E st docStructure"

subsection \<open>Sample documents and collaborators\<close>

fun recognized :: "vector \<Rightarrow> bool" where
  "recognized (Other t) = False"
| "recognized v = True"

text \<open>
  The entries \<open>measureCanvas\<close> can read without a TypeError: objects whose
  polylines have a \<open>points\<close> array without a null point.
\<close>

fun readable :: "vector \<Rightarrow> bool" where
  "readable NullEntry = False"
| "readable (Polyline None) = False"
| "readable (Polyline (Some pts)) = list_all (\<lambda>p. p \<noteq> None) pts"
| "readable v = True"

definition presetTableDoc :: node where
  "presetTableDoc = Obj None None None None (Some (Tbl [[Str ''a'']] None None None))
     (emptyAttrs\<lparr> margin := Some (MNum 5), u_minWidth := Some (Num 0), u_maxWidth := Some (Num 0) \<rparr>)"

definition sampleEnv :: "unit env" where
  "sampleEnv =
     \<lparr> styleDictionary =
         (\<lambda>k. if k = ''a'' then Some \<lparr> sd_margin = Some (MNum 5) \<rparr>
              else if k = ''b'' then Some \<lparr> sd_margin = None \<rparr> else None),
       autoPush = (\<lambda>r st. st),
       buildInlines = (\<lambda>t st. \<lparr> items = [(t, 6 * real (length t))],
                                 minWidth = 6 * real (length t), maxWidth = 6 * real (length t) \<rparr>),
       sizeOfString = (\<lambda>s st. \<lparr> gs_width = 6 * real (length s), gs_height = 12,
                                 gs_fontSize = 12, gs_decender = -3 \<rparr>),
       getColumnGap = (\<lambda>st. None) \<rparr>"

definition autoDesc :: widthEntry where
  "autoDesc = WDesc \<lparr> width = Some (WStr ''auto''), w_minWidth = None, w_maxWidth = None \<rparr>"

fun nodeListMarker :: "node \<Rightarrow> marker option" where
  "nodeListMarker (Obj cs ss us os tb a) = listMarker a"
| "nodeListMarker n = None"

fun nodeCounter :: "node \<Rightarrow> string option" where
  "nodeCounter (Obj cs ss us os tb a) = counter a"
| "nodeCounter n = None"

definition tableDoc :: node where
  "tableDoc = Obj None None None None (Some (Tbl [[Str ''a'']] None None None)) emptyAttrs"

definition ol7 :: node where
  "ol7 = Obj None None None
     (Some [Obj None None None None None (emptyAttrs\<lparr> ntext := Some ''z'', counter := Some ''7'' \<rparr>)])
     None emptyAttrs"

definition ol3 :: node where
  "ol3 = Obj None None None
     (Some [Str ''x'', Obj None None (Some [Str ''y'']) None None emptyAttrs, Str ''w''])
     None emptyAttrs"


text \<open>
  A document definition as it is passed in: no node carries \<open>_minWidth\<close> or
  \<open>_maxWidth\<close> yet.
\<close>

function unmeasured :: "node \<Rightarrow> bool" where
  "unmeasured (Arr xs) = (\<forall>x\<in>set xs. unmeasured x)"
| "unmeasured (Str t) = True"
| "unmeasured (Obj cs ss us os tb a) =
     (u_minWidth a = None \<and> u_maxWidth a = None
      \<and> (\<forall>x\<in>childNodes cs ss us os tb. unmeasured x))"
  by pat_completeness auto
termination
  apply (relation "measure size")
    apply simp
   apply (auto dest: size_in_list)[1]
  apply (simp add: childNodes_size [simplified])
  done

fun wAt :: "widthsSpec option \<Rightarrow> nat \<Rightarrow> widthEntry option" where
  "wAt (Some (WsArr ws)) k = (if k < length ws then Some (ws ! k) else None)"
| "wAt w k = None"

definition hasCol :: "node list list \<Rightarrow> nat \<Rightarrow> bool" where
  "hasCol b col = (\<forall>row\<in>set b. col < length row)"

fun normalizedWidths :: "widthsSpec option \<Rightarrow> bool" where
  "normalizedWidths (Some (WsArr ws)) = (\<forall>e\<in>set ws. wrapWidth e = e)"
| "normalizedWidths (Some (WsNum r)) = (r \<noteq> 0)"
| "normalizedWidths w = False"

text \<open>
  The node returned for \<open>presetTableDoc\<close> when its own bounds are \<open>k\<close>, and
  a text leaf with the same margin and the same preset bounds.
\<close>

definition presetTableResult :: "real \<Rightarrow> node" where
  "presetTableResult k = Obj None None None None
     (Some (Tbl [[Obj None None None None None
                   (emptyAttrs\<lparr> ntext := Some ''a'', u_minWidth := Some (Num 6),
                       u_maxWidth := Some (Num 6), u_inlines := Some [(''a'', 6)] \<rparr>)]]
              (Some (WsArr [WDesc \<lparr> width = Some (WStr ''auto''), w_minWidth = Some (Num 6),
                                     w_maxWidth = Some (Num 6) \<rparr>]))
              (Some (Num 6)) (Some (Num 6))))
     (emptyAttrs\<lparr> margin := Some (MNum 5), u_margin := Some [5, 5, 5, 5],
         u_minWidth := Some (Num k), u_maxWidth := Some (Num k) \<rparr>)"

definition presetLeafDoc :: node where
  "presetLeafDoc = Obj None None None None None
     (emptyAttrs\<lparr> ntext := Some ''a'', margin := Some (MNum 5),
         u_minWidth := Some (Num 0), u_maxWidth := Some (Num 0) \<rparr>)"

definition presetLeafResult :: node where
  "presetLeafResult = Obj None None None None None
     (emptyAttrs\<lparr> ntext := Some ''a'', margin := Some (MNum 5), u_margin := Some [5, 5, 5, 5],
         u_minWidth := Some (Num 16), u_maxWidth := Some (Num 16),
         u_inlines := Some [(''a'', 6)] \<rparr>)"


section \<open>Properties of the page element writer\<close>

lemma getContext_setContext: "getContext (setContext c s) = Some c"
  by (simp add: getContext_def setContext_def split: ctxref.splits)

lemma getContext_logCall: "getContext (logCall e s) = getContext s"
  by (simp add: getContext_def logCall_def split: ctxref.splits)

lemma calls_setContext: "calls (setContext c s) = calls s"
  by (simp add: setContext_def split: ctxref.splits)

lemma calls_logCall: "calls (logCall e s) = calls s @ [e]"
  by (simp add: logCall_def)

lemma repeatables_setContext: "repeatables (setContext c s) = repeatables s"
  by (simp add: setContext_def split: ctxref.splits)

lemma repeatables_logCall: "repeatables (logCall e s) = repeatables s"
  by (simp add: logCall_def)

lemma level_setContext: "transactionLevel (setContext c s) = transactionLevel s"
  by (simp add: setContext_def split: ctxref.splits)

lemma level_logCall: "transactionLevel (logCall e s) = transactionLevel s"
  by (simp add: logCall_def)

lemma contextRef_setContext: "contextRef (setContext c s) = contextRef s"
  by (simp add: setContext_def split: ctxref.splits)

lemma contextRef_logCall: "contextRef (logCall e s) = contextRef s"
  by (simp add: logCall_def)

lemmas pew_simps = getContext_setContext getContext_logCall calls_setContext calls_logCall
  repeatables_setContext repeatables_logCall level_setContext level_logCall
  contextRef_setContext contextRef_logCall

lemma addRepeatables_run:
  "getContext s = Some c \<Longrightarrow>
   \<exists>s'. addRepeatables C reps s = Some s'
      \<and> getContext s' = Some (foldl (\<lambda>a rep. snd (w_addFragment C rep True a)) c reps)
      \<and> calls s' = calls s @ map (\<lambda>rep. WAddFragment rep True) reps
      \<and> repeatables s' = repeatables s \<and> transactionLevel s' = transactionLevel s
      \<and> contextRef s' = contextRef s"
proof (induction reps arbitrary: s c)
  case Nil
  then show ?case by simp
next
  case (Cons rep reps)
  obtain ok c' where w: "w_addFragment C rep True c = (ok, c')"
    by (cases "w_addFragment C rep True c")
  let ?s1 = "setContext c' (logCall (WAddFragment rep True) s)"
  have g: "getContext ?s1 = Some c'" by (simp add: pew_simps)
  from Cons.IH [OF g] obtain s' where
    "addRepeatables C reps ?s1 = Some s'"
    "getContext s' = Some (foldl (\<lambda>a rep. snd (w_addFragment C rep True a)) c' reps)"
    "calls s' = calls ?s1 @ map (\<lambda>rep. WAddFragment rep True) reps"
    "repeatables s' = repeatables ?s1" "transactionLevel s' = transactionLevel ?s1"
    "contextRef s' = contextRef ?s1"
    by blast
  with Cons.prems w show ?case
    by (simp add: writerAddFragment_def pew_simps)
qed

lemma moveDownRepeatables_run:
  "getContext s = Some c \<Longrightarrow>
   \<exists>s'. moveDownRepeatables C reps s = Some s'
      \<and> getContext s' = Some (foldl (\<lambda>a rep. c_moveDown C (height rep) a) c reps)
      \<and> calls s' = calls s @ map (\<lambda>rep. CMoveDown (height rep)) reps
      \<and> repeatables s' = repeatables s \<and> transactionLevel s' = transactionLevel s
      \<and> contextRef s' = contextRef s"
proof (induction reps arbitrary: s c)
  case Nil
  then show ?case by simp
next
  case (Cons rep reps)
  let ?s1 = "setContext (c_moveDown C (height rep) c) (logCall (CMoveDown (height rep)) s)"
  have g: "getContext ?s1 = Some (c_moveDown C (height rep) c)" by (simp add: pew_simps)
  from Cons.IH [OF g] obtain s' where
    "moveDownRepeatables C reps ?s1 = Some s'"
    "getContext s' = Some (foldl (\<lambda>a rep. c_moveDown C (height rep) a) (c_moveDown C (height rep) c) reps)"
    "calls s' = calls ?s1 @ map (\<lambda>rep. CMoveDown (height rep)) reps"
    "repeatables s' = repeatables ?s1" "transactionLevel s' = transactionLevel ?s1"
    "contextRef s' = contextRef ?s1"
    by blast
  with Cons.prems show ?case
    by (simp add: pew_simps)
qed

lemma moveToNextPage_run:
  assumes "getContext s = Some c"
  shows "\<exists>s'. moveToNextPage C s = (Undefined, s')
      \<and> getContext s' = Some
           (if needsNewPage c
            then foldl (\<lambda>a rep. snd (w_addFragment C rep True a))
                   (c_moveToPageTop C (c\<lparr>pages := pages c @ [emptyPage], pageIdx := pageIdx c + 1\<rparr>))
                   (repeatables s)
            else foldl (\<lambda>a rep. c_moveDown C (height rep) a)
                   (c_moveToPageTop C (c\<lparr>pageIdx := pageIdx c + 1\<rparr>)) (repeatables s))
      \<and> calls s' = calls s @ pageBreakCalls (needsNewPage c) (repeatables s)
      \<and> repeatables s' = repeatables s \<and> transactionLevel s' = transactionLevel s
      \<and> contextRef s' = contextRef s"
proof (cases "needsNewPage c")
  case True
  let ?c2 = "c\<lparr>pages := pages c @ [emptyPage], pageIdx := pageIdx c + 1\<rparr>"
  let ?s1 = "setContext (c_moveToPageTop C ?c2) (logCall CMoveToPageTop s)"
  have g: "getContext ?s1 = Some (c_moveToPageTop C ?c2)" by (simp add: pew_simps)
  from addRepeatables_run [OF g, of C "repeatables s"] obtain s' where
    "addRepeatables C (repeatables s) ?s1 = Some s'"
    "getContext s' = Some (foldl (\<lambda>a rep. snd (w_addFragment C rep True a)) (c_moveToPageTop C ?c2) (repeatables s))"
    "calls s' = calls ?s1 @ map (\<lambda>rep. WAddFragment rep True) (repeatables s)"
    "repeatables s' = repeatables ?s1" "transactionLevel s' = transactionLevel ?s1"
    "contextRef s' = contextRef ?s1"
    by blast
  with assms True show ?thesis
    by (simp add: moveToNextPage_def needsNewPage_def pageBreakCalls_def pew_simps Let_def)
next
  case False
  let ?c2 = "c\<lparr>pageIdx := pageIdx c + 1\<rparr>"
  let ?s1 = "setContext (c_moveToPageTop C ?c2) (logCall CMoveToPageTop s)"
  have g: "getContext ?s1 = Some (c_moveToPageTop C ?c2)" by (simp add: pew_simps)
  from moveDownRepeatables_run [OF g, of C "repeatables s"] obtain s' where
    "moveDownRepeatables C (repeatables s) ?s1 = Some s'"
    "getContext s' = Some (foldl (\<lambda>a rep. c_moveDown C (height rep) a) (c_moveToPageTop C ?c2) (repeatables s))"
    "calls s' = calls ?s1 @ map (\<lambda>rep. CMoveDown (height rep)) (repeatables s)"
    "repeatables s' = repeatables ?s1" "transactionLevel s' = transactionLevel ?s1"
    "contextRef s' = contextRef ?s1"
    by blast
  with assms False show ?thesis
    by (simp add: moveToNextPage_def needsNewPage_def pageBreakCalls_def pew_simps Let_def)
qed

text \<open>
  Claim C5. \<open>moveToNextPage\<close> on an active context \<open>c\<close>: when the next page
  index is beyond the page collection, an empty page is appended, the page index
  advances, \<open>moveToPageTop\<close> is called once, and then every active repeatable is
  handed to the writer's \<open>addFragment\<close> in push order with the second argument
  \<open>true\<close>; when the next page exists, the page index advances,
  \<open>moveToPageTop\<close> is called once, no fragment is handed to the writer, and
  \<open>moveDown\<close> is called with the height of each active repeatable in push order.
\<close>
theorem moveToNextPage_new_or_existing:
  assumes "getContext s = Some c"
  shows "\<exists>s'. moveToNextPage C s = (Undefined, s')
     \<and> (pageIdx c + 1 \<ge> int (length (pages c)) \<longrightarrow>
          getContext s' = Some
            (foldl (\<lambda>a rep. snd (w_addFragment C rep True a))
               (c_moveToPageTop C (c\<lparr>pages := pages c @ [emptyPage], pageIdx := pageIdx c + 1\<rparr>))
               (repeatables s))
          \<and> calls s' = calls s @ CMoveToPageTop # map (\<lambda>rep. WAddFragment rep True) (repeatables s))
     \<and> (pageIdx c + 1 < int (length (pages c)) \<longrightarrow>
          getContext s' = Some
            (foldl (\<lambda>a rep. c_moveDown C (height rep) a)
               (c_moveToPageTop C (c\<lparr>pageIdx := pageIdx c + 1\<rparr>)) (repeatables s))
          \<and> calls s' = calls s @ CMoveToPageTop # map (\<lambda>rep. CMoveDown (height rep)) (repeatables s))"
  using moveToNextPage_run [OF assms, of C]
  by (auto simp: needsNewPage_def pageBreakCalls_def)

theorem moveToNextPage_new_or_existing_witness:
  "getContext ((PageElementWriter ctxFull)\<lparr>repeatables := [rep0]\<rparr>) = Some ctxFull
   \<and> pageIdx ctxFull + 1 \<ge> int (length (pages ctxFull))
   \<and> calls (snd (moveToNextPage stubCollab ((PageElementWriter ctxFull)\<lparr>repeatables := [rep0]\<rparr>)))
       = [CMoveToPageTop, WAddFragment rep0 True]
   \<and> getContext (snd (moveToNextPage stubCollab ((PageElementWriter ctxFull)\<lparr>repeatables := [rep0]\<rparr>)))
       = Some \<lparr> pageIdx = 1, pages = [emptyPage, emptyPage], ctxX = 0, ctxY = 10 \<rparr>
   \<and> getContext ((PageElementWriter (ctxFull\<lparr>pageIdx := -1\<rparr>))\<lparr>repeatables := [rep0]\<rparr>)
       = Some (ctxFull\<lparr>pageIdx := -1\<rparr>)
   \<and> pageIdx (ctxFull\<lparr>pageIdx := -1\<rparr>) + 1 < int (length (pages (ctxFull\<lparr>pageIdx := -1\<rparr>)))
   \<and> calls (snd (moveToNextPage stubCollab
         ((PageElementWriter (ctxFull\<lparr>pageIdx := -1\<rparr>))\<lparr>repeatables := [rep0]\<rparr>)))
       = [CMoveToPageTop, CMoveDown (Some 20)]
   \<and> getContext (snd (moveToNextPage stubCollab
         ((PageElementWriter (ctxFull\<lparr>pageIdx := -1\<rparr>))\<lparr>repeatables := [rep0]\<rparr>)))
       = Some \<lparr> pageIdx = 0, pages = [emptyPage], ctxX = 0, ctxY = 20 \<rparr>"
proof -
  let ?s = "(PageElementWriter ctxFull)\<lparr>repeatables := [rep0]\<rparr>"
  let ?t = "(PageElementWriter (ctxFull\<lparr>pageIdx := -1\<rparr>))\<lparr>repeatables := [rep0]\<rparr>"
  have gs: "getContext ?s = Some ctxFull"
    by (simp add: getContext_def PageElementWriter_def)
  have gt: "getContext ?t = Some (ctxFull\<lparr>pageIdx := -1\<rparr>)"
    by (simp add: getContext_def PageElementWriter_def)
  have a: "pageIdx ctxFull + 1 \<ge> int (length (pages ctxFull))"
    by (simp add: ctxFull_def)
  have b: "pageIdx (ctxFull\<lparr>pageIdx := -1\<rparr>) + 1 < int (length (pages (ctxFull\<lparr>pageIdx := -1\<rparr>)))"
    by (simp add: ctxFull_def)
  from moveToNextPage_new_or_existing [OF gs, of stubCollab] a
  have 1: "calls (snd (moveToNextPage stubCollab ?s)) = [CMoveToPageTop, WAddFragment rep0 True]
     \<and> getContext (snd (moveToNextPage stubCollab ?s))
         = Some \<lparr> pageIdx = 1, pages = [emptyPage, emptyPage], ctxX = 0, ctxY = 10 \<rparr>"
    by (auto simp: PageElementWriter_def stubCollab_def ctxFull_def)
  from moveToNextPage_new_or_existing [OF gt, of stubCollab] b
  have 2: "calls (snd (moveToNextPage stubCollab ?t)) = [CMoveToPageTop, CMoveDown (Some 20)]
     \<and> getContext (snd (moveToNextPage stubCollab ?t))
         = Some \<lparr> pageIdx = 0, pages = [emptyPage], ctxX = 0, ctxY = 20 \<rparr>"
    by (auto simp: PageElementWriter_def stubCollab_def ctxFull_def rep0_def)
  from gs gt a b 1 2 show ?thesis by blast
qed

lemma writerAddLine_run:
  assumes "getContext s = Some c"
  shows "\<exists>ok s1. writerAddLine C l d s = Some (ok, s1) \<and> ok = fst (w_addLine C l d c)
      \<and> getContext s1 = Some (snd (w_addLine C l d c))
      \<and> calls s1 = calls s @ [WAddLine l d] \<and> repeatables s1 = repeatables s"
  using assms by (cases "w_addLine C l d c") (simp add: writerAddLine_def pew_simps)

lemma writerAddFragment_run:
  assumes "getContext s = Some c"
  shows "\<exists>ok s1. writerAddFragment C f u s = Some (ok, s1) \<and> ok = fst (w_addFragment C f u c)
      \<and> getContext s1 = Some (snd (w_addFragment C f u c))
      \<and> calls s1 = calls s @ [WAddFragment f u] \<and> repeatables s1 = repeatables s"
  using assms by (cases "w_addFragment C f u c") (simp add: writerAddFragment_def pew_simps)

lemma addLine_run:
  assumes "getContext s = Some c"
  shows "\<exists>s'. addLine C l d s = (Undefined, s')
    \<and> (fst (w_addLine C l d c) \<longrightarrow> calls s' = calls s @ [WAddLine l d])
    \<and> (\<not> fst (w_addLine C l d c) \<longrightarrow>
         calls s' = calls s @ [WAddLine l d]
            @ pageBreakCalls (needsNewPage (snd (w_addLine C l d c))) (repeatables s)
            @ [WAddLine l d])"
proof -
  from writerAddLine_run [OF assms, of C l d] obtain ok s1 where
    w1: "writerAddLine C l d s = Some (ok, s1)" "ok = fst (w_addLine C l d c)"
        "getContext s1 = Some (snd (w_addLine C l d c))"
        "calls s1 = calls s @ [WAddLine l d]" "repeatables s1 = repeatables s"
    by blast
  show ?thesis
  proof (cases ok)
    case True
    with w1 show ?thesis by (simp add: addLine_def)
  next
    case False
    from moveToNextPage_run [OF w1(3), of C] obtain s2 c2 where
      m: "moveToNextPage C s1 = (Undefined, s2)" "getContext s2 = Some c2"
         "calls s2 = calls s1 @ pageBreakCalls (needsNewPage (snd (w_addLine C l d c))) (repeatables s1)"
      by blast
    from writerAddLine_run [OF m(2), of C l d] obtain ok2 s3 where
      w2: "writerAddLine C l d s2 = Some (ok2, s3)" "calls s3 = calls s2 @ [WAddLine l d]"
      by blast
    from False w1 m w2 show ?thesis by (simp add: addLine_def)
  qed
qed

lemma addFragment_run:
  assumes "getContext s = Some c"
  shows "\<exists>s'. addFragment C f s = (Undefined, s')
    \<and> (fst (w_addFragment C f False c) \<longrightarrow> calls s' = calls s @ [WAddFragment f False])
    \<and> (\<not> fst (w_addFragment C f False c) \<longrightarrow>
         calls s' = calls s @ [WAddFragment f False]
            @ pageBreakCalls (needsNewPage (snd (w_addFragment C f False c))) (repeatables s)
            @ [WAddFragment f False])"
proof -
  from writerAddFragment_run [OF assms, of C f False] obtain ok s1 where
    w1: "writerAddFragment C f False s = Some (ok, s1)" "ok = fst (w_addFragment C f False c)"
        "getContext s1 = Some (snd (w_addFragment C f False c))"
        "calls s1 = calls s @ [WAddFragment f False]" "repeatables s1 = repeatables s"
    by blast
  show ?thesis
  proof (cases ok)
    case True
    with w1 show ?thesis by (simp add: addFragment_def)
  next
    case False
    from moveToNextPage_run [OF w1(3), of C] obtain s2 c2 where
      m: "moveToNextPage C s1 = (Undefined, s2)" "getContext s2 = Some c2"
         "calls s2 = calls s1 @ pageBreakCalls (needsNewPage (snd (w_addFragment C f False c))) (repeatables s1)"
      by blast
    from writerAddFragment_run [OF m(2), of C f False] obtain ok2 s3 where
      w2: "writerAddFragment C f False s2 = Some (ok2, s3)" "calls s3 = calls s2 @ [WAddFragment f False]"
      by blast
    from False w1 m w2 show ?thesis by (simp add: addFragment_def)
  qed
qed

text \<open>
  Claim C4, as amended. When the writer reports that a line (a fragment) does not
  fit, the calls made are: the failed attempt, the calls of exactly one page
  break, and exactly one second attempt. The report of the second attempt is
  discarded: \<open>addLine\<close> and \<open>addFragment\<close> complete with \<open>undefined\<close>
  whatever the second attempt reports, and there is no third attempt.
\<close>
theorem addLine_addFragment_retry_once:
  assumes "getContext s = Some c"
  shows "(\<exists>s'. addLine C l d s = (Undefined, s')
      \<and> (\<not> fst (w_addLine C l d c) \<longrightarrow>
           calls s' = calls s @ [WAddLine l d]
              @ pageBreakCalls (needsNewPage (snd (w_addLine C l d c))) (repeatables s)
              @ [WAddLine l d]))
    \<and> (\<exists>s'. addFragment C f s = (Undefined, s')
      \<and> (\<not> fst (w_addFragment C f False c) \<longrightarrow>
           calls s' = calls s @ [WAddFragment f False]
              @ pageBreakCalls (needsNewPage (snd (w_addFragment C f False c))) (repeatables s)
              @ [WAddFragment f False]))"
  using addLine_run [OF assms, of C l d] addFragment_run [OF assms, of C f] by blast

theorem addLine_addFragment_retry_once_witness:
  "getContext (PageElementWriter ctxFull) = Some ctxFull
   \<and> \<not> fst (w_addLine neverFits line0 False ctxFull)
   \<and> \<not> fst (w_addFragment neverFits rep0 False ctxFull)
   \<and> addLine neverFits line0 False (PageElementWriter ctxFull)
       = (Undefined, (PageElementWriter
            \<lparr> pageIdx = 1, pages = [emptyPage, emptyPage], ctxX = 0, ctxY = 0 \<rparr>)
            \<lparr> calls := [WAddLine line0 False, CMoveToPageTop, WAddLine line0 False] \<rparr>)
   \<and> calls (snd (addFragment neverFits rep0 (PageElementWriter ctxFull)))
       = [WAddFragment rep0 False, CMoveToPageTop, WAddFragment rep0 False]"
proof -
  have g: "getContext (PageElementWriter ctxFull) = Some ctxFull"
    by (simp add: getContext_def PageElementWriter_def)
  have n: "\<not> fst (w_addLine neverFits line0 False ctxFull)"
          "\<not> fst (w_addFragment neverFits rep0 False ctxFull)"
    by (simp_all add: neverFits_def)
  have e: "addLine neverFits line0 False (PageElementWriter ctxFull)
       = (Undefined, (PageElementWriter
            \<lparr> pageIdx = 1, pages = [emptyPage, emptyPage], ctxX = 0, ctxY = 0 \<rparr>)
            \<lparr> calls := [WAddLine line0 False, CMoveToPageTop, WAddLine line0 False] \<rparr>)"
    by (simp add: addLine_def writerAddLine_def moveToNextPage_def getContext_def setContext_def
        logCall_def PageElementWriter_def neverFits_def stubCollab_def ctxFull_def Let_def)
  from addLine_addFragment_retry_once [OF g, of neverFits line0 False rep0] n
  have "calls (snd (addFragment neverFits rep0 (PageElementWriter ctxFull)))
       = [WAddFragment rep0 False, CMoveToPageTop, WAddFragment rep0 False]"
    by (auto simp: pageBreakCalls_def PageElementWriter_def)
  with g n e show ?thesis by blast
qed

text \<open>
  Claim C4 as stated fails: with a writer that never accepts a line, both attempts
  report a non-fit, and \<open>addLine\<close> still completes with \<open>undefined\<close>, exactly
  as it does when the line was placed; the line is on no page.
\<close>
theorem retry_failure_surfaced_counterexample:
  "\<not> fst (w_addLine neverFits line0 False ctxFull)
   \<and> \<not> fst (w_addLine neverFits line0 False
          \<lparr> pageIdx = 1, pages = [emptyPage, emptyPage], ctxX = 0, ctxY = 0 \<rparr>)
   \<and> addLine neverFits line0 False (PageElementWriter ctxFull)
       = (Undefined, (PageElementWriter
            \<lparr> pageIdx = 1, pages = [emptyPage, emptyPage], ctxX = 0, ctxY = 0 \<rparr>)
            \<lparr> calls := [WAddLine line0 False, CMoveToPageTop, WAddLine line0 False] \<rparr>)
   \<and> fst (addLine stubCollab line0 False (PageElementWriter ctxFull)) = Undefined"
  by (simp add: addLine_def writerAddLine_def moveToNextPage_def getContext_def setContext_def
        logCall_def PageElementWriter_def neverFits_def stubCollab_def ctxFull_def Let_def)

text \<open>
  Claim C6. Starting outside a transaction, begin; begin; commit leaves the
  transaction level at 1 with the unbreakable sub-context active and the original
  context untouched. The commit that brings the level from 1 to 0 makes the
  original context active again; if the sub-context has no page nothing more
  happens, otherwise the first page's lines and vectors with the sub-context's
  cursor \<open>y\<close> as height are handed to \<open>addFragment\<close>, which runs on the
  original context.
\<close>
theorem unbreakable_blocks_depth_counted:
  assumes "transactionLevel s = 0" and "contextRef s = Original"
  shows "(\<exists>s1 s2 s3.
            beginUnbreakableBlock C s = (Undefined, s1)
          \<and> beginUnbreakableBlock C s1 = (Undefined, s2)
          \<and> commitUnbreakableBlock C s2 = (Undefined, s3)
          \<and> transactionLevel s3 = 1 \<and> contextRef s3 = Transaction
          \<and> getContext s3 = Some (c_createUnbreakableSubcontext C (originalContext s))
          \<and> originalContext s3 = originalContext s
          \<and> (\<forall>u tc. transactionLevel u = 1 \<and> transactionContext u = Some tc
                \<and> originalContext u = originalContext s3 \<longrightarrow>
               (\<exists>u'. contextRef u' = Original \<and> transactionLevel u' = 0
                    \<and> getContext u' = Some (originalContext s)
                    \<and> calls u' = calls u @ [WSetContext Original]
                    \<and> repeatables u' = repeatables u
                    \<and> (pages tc = [] \<longrightarrow> commitUnbreakableBlock C u = (Undefined, u'))
                    \<and> (\<forall>p ps. pages tc = p # ps \<longrightarrow>
                          commitUnbreakableBlock C u =
                            addFragment C
                              \<lparr> lines = lines p, vectors = vectors p,
                                height = Some (ctxY tc), xOffset = xOffset p \<rparr> u'))))"
proof -
  let ?s1 = "activateTransactionContext
      ((logCall CCreateUnbreakableSubcontext (s\<lparr>transactionLevel := transactionLevel s + 1\<rparr>))
         \<lparr>transactionContext := Some (c_createUnbreakableSubcontext C (originalContext s))\<rparr>)"
  let ?s2 = "?s1\<lparr>transactionLevel := transactionLevel ?s1 + 1\<rparr>"
  let ?s3 = "?s2\<lparr>transactionLevel := transactionLevel ?s2 - 1\<rparr>"
  have l1: "transactionLevel ?s1 = 1"
    using assms by (simp add: activateTransactionContext_def logCall_def)
  have b1: "beginUnbreakableBlock C s = (Undefined, ?s1)"
    using assms by (simp add: beginUnbreakableBlock_def getContext_def Let_def)
  have b2: "beginUnbreakableBlock C ?s1 = (Undefined, ?s2)"
    using l1 by (simp add: beginUnbreakableBlock_def Let_def)
  have c3: "commitUnbreakableBlock C ?s2 = (Undefined, ?s3)"
    using l1 by (simp add: commitUnbreakableBlock_def Let_def)
  have p3: "transactionLevel ?s3 = 1" "contextRef ?s3 = Transaction"
    "getContext ?s3 = Some (c_createUnbreakableSubcontext C (originalContext s))"
    "originalContext ?s3 = originalContext s"
    using l1 by (simp_all add: activateTransactionContext_def logCall_def getContext_def)
  have fin: "\<exists>u'. contextRef u' = Original \<and> transactionLevel u' = 0
                    \<and> getContext u' = Some (originalContext s)
                    \<and> calls u' = calls u @ [WSetContext Original]
                    \<and> repeatables u' = repeatables u
                    \<and> (pages tc = [] \<longrightarrow> commitUnbreakableBlock C u = (Undefined, u'))
                    \<and> (\<forall>p ps. pages tc = p # ps \<longrightarrow>
                          commitUnbreakableBlock C u =
                            addFragment C
                              \<lparr> lines = lines p, vectors = vectors p,
                                height = Some (ctxY tc), xOffset = xOffset p \<rparr> u')"
    if u: "transactionLevel u = 1" "transactionContext u = Some tc"
          "originalContext u = originalContext ?s3" for u tc
  proof (cases "pages tc")
    case Nil
    define u' where "u' = removeTransactionContext (u\<lparr>transactionLevel := transactionLevel u - 1\<rparr>)"
    have "commitUnbreakableBlock C u = (Undefined, u')"
      using u Nil by (simp add: u'_def commitUnbreakableBlock_def Let_def removeTransactionContext_def logCall_def)
    moreover have "contextRef u' = Original" "transactionLevel u' = 0"
      "getContext u' = Some (originalContext s)" "calls u' = calls u @ [WSetContext Original]"
      "repeatables u' = repeatables u"
      using u p3(4) by (simp_all add: u'_def removeTransactionContext_def logCall_def getContext_def)
    ultimately show ?thesis using Nil by (intro exI [of _ u']) simp
  next
    case (Cons p ps)
    define f where "f = \<lparr> lines = lines p, vectors = vectors p,
                                height = Some (ctxY tc), xOffset = xOffset p \<rparr>"
    define u' where "u' = (removeTransactionContext (u\<lparr>transactionLevel := transactionLevel u - 1\<rparr>))
                 \<lparr>transactionContext := Some (tc\<lparr>pages := f # ps\<rparr>)\<rparr>"
    have pf: "p\<lparr>height := Some (ctxY tc)\<rparr> = f"
      by (simp add: f_def)
    have "commitUnbreakableBlock C u = addFragment C f u'"
      using u Cons
      by (simp add: u'_def pf commitUnbreakableBlock_def Let_def removeTransactionContext_def logCall_def)
    moreover have "contextRef u' = Original" "transactionLevel u' = 0"
      "getContext u' = Some (originalContext s)" "calls u' = calls u @ [WSetContext Original]"
      "repeatables u' = repeatables u"
      using u p3(4) by (simp_all add: u'_def removeTransactionContext_def logCall_def getContext_def)
    ultimately show ?thesis using Cons
      by (intro exI [of _ u']) (simp add: f_def)
  qed
  from b1 b2 c3 p3 fin show ?thesis by blast
qed

theorem unbreakable_blocks_depth_counted_witness:
  "transactionLevel (PageElementWriter ctxFull) = 0
   \<and> contextRef (PageElementWriter ctxFull) = Original
   \<and> (\<exists>s1 s2 s3 u'.
         beginUnbreakableBlock stubCollab (PageElementWriter ctxFull) = (Undefined, s1)
       \<and> beginUnbreakableBlock stubCollab s1 = (Undefined, s2)
       \<and> commitUnbreakableBlock stubCollab s2 = (Undefined, s3)
       \<and> transactionLevel s3 = 1 \<and> contextRef s3 = Transaction
       \<and> transactionLevel u' = 0 \<and> contextRef u' = Original
       \<and> getContext u' = Some ctxFull
       \<and> commitUnbreakableBlock stubCollab s3 =
           addFragment stubCollab
             \<lparr> lines = [], vectors = [], height = Some 0, xOffset = None \<rparr> u')"
proof -
  let ?s = "PageElementWriter ctxFull"
  let ?tc = "c_createUnbreakableSubcontext stubCollab (originalContext ?s)"
  have h: "transactionLevel ?s = 0" "contextRef ?s = Original"
    by (simp_all add: PageElementWriter_def)
  have o: "originalContext ?s = ctxFull"
    by (simp add: PageElementWriter_def)
  have tc: "pages ?tc = [emptyPage]" "ctxY ?tc = 0"
    by (simp_all add: stubCollab_def)
  from unbreakable_blocks_depth_counted [OF h, of stubCollab] obtain s1 s2 s3 where
    r: "beginUnbreakableBlock stubCollab ?s = (Undefined, s1)"
       "beginUnbreakableBlock stubCollab s1 = (Undefined, s2)"
       "commitUnbreakableBlock stubCollab s2 = (Undefined, s3)"
       "transactionLevel s3 = 1" "contextRef s3 = Transaction"
       "getContext s3 = Some ?tc"
    and fin: "\<And>u tc. transactionLevel u = 1 \<Longrightarrow> transactionContext u = Some tc
                \<Longrightarrow> originalContext u = originalContext s3 \<Longrightarrow>
               (\<exists>u'. contextRef u' = Original \<and> transactionLevel u' = 0
                    \<and> getContext u' = Some (originalContext ?s)
                    \<and> (\<forall>p ps. pages tc = p # ps \<longrightarrow>
                          commitUnbreakableBlock stubCollab u =
                            addFragment stubCollab
                              \<lparr> lines = lines p, vectors = vectors p,
                                height = Some (ctxY tc), xOffset = xOffset p \<rparr> u'))"
    by blast
  from r(5,6) have t3: "transactionContext s3 = Some ?tc"
    by (simp add: getContext_def)
  from fin [OF r(4) t3 refl] obtain u' where
    u: "contextRef u' = Original" "transactionLevel u' = 0" "getContext u' = Some (originalContext ?s)"
       "\<forall>p ps. pages ?tc = p # ps \<longrightarrow>
          commitUnbreakableBlock stubCollab s3 =
            addFragment stubCollab
              \<lparr> lines = lines p, vectors = vectors p,
                height = Some (ctxY ?tc), xOffset = xOffset p \<rparr> u'"
    by blast
  from u(4) tc have "commitUnbreakableBlock stubCollab s3 =
      addFragment stubCollab \<lparr> lines = [], vectors = [], height = Some 0, xOffset = None \<rparr> u'"
    by (simp add: emptyPage_def)
  with h r u(1,2,3) o show ?thesis by auto
qed

section \<open>Properties of the measurement\<close>

lemma canvasLoop_filter: "canvasLoop (filter recognized vs) wh = canvasLoop vs wh"
proof (induction vs arbitrary: wh)
  case Nil
  then show ?case by simp
next
  case (Cons v vs)
  then show ?case by (cases v; cases wh) (simp_all split: sum.splits)
qed

lemma polylineLoop_returns:
  "(\<exists>wh'. polylineLoop pts wh = Inr wh') = list_all (\<lambda>p. p \<noteq> None) pts"
  by (induction pts wh rule: polylineLoop.induct) simp_all

lemma canvasStep_returns: "(\<exists>wh'. canvasStep v wh = Inr wh') = readable v"
proof (cases wh)
  case (Pair w h)
  show ?thesis
  proof (cases v)
    case (Polyline po)
    show ?thesis
    proof (cases po)
      case None
      then show ?thesis by (simp add: Polyline Pair)
    next
      case (Some pts)
      with polylineLoop_returns [of pts "(w, h)"] show ?thesis by (simp add: Polyline Pair)
    qed
  qed (simp_all add: Pair)
qed

lemma canvasLoop_returns: "(\<exists>wh'. canvasLoop vs wh = Inr wh') = list_all readable vs"
proof (induction vs arbitrary: wh)
  case Nil
  then show ?case by simp
next
  case (Cons v vs)
  show ?case
  proof (cases "canvasStep v wh")
    case (Inl e)
    with canvasStep_returns [of v wh] show ?thesis by simp
  next
    case (Inr wh1)
    with canvasStep_returns [of v wh] Cons.IH [of wh1] show ?thesis by simp
  qed
qed

text \<open>
  Claim C9, as amended. \<open>measureCanvas\<close> fails exactly when the canvas has an
  entry that is null or undefined, a polyline without a \<open>points\<close> array, or a
  polyline with a null point. On every other canvas it returns; the primitives
  of an unrecognized type can be removed from the canvas without changing any
  computed bound; and a canvas with no recognized primitive gets width 0 and
  height 0 as both minimum and maximum.
\<close>
theorem measureCanvas_returns:
  assumes "canvas a = Some vs"
  shows "((\<exists>a'. measureCanvas a = Inr a') = list_all readable vs)
     \<and> (list_all readable vs \<longrightarrow>
          (\<exists>a'. measureCanvas a = Inr a'
             \<and> measureCanvas (a\<lparr> canvas := Some (filter recognized vs) \<rparr>)
                 = Inr (a'\<lparr> canvas := Some (filter recognized vs) \<rparr>)
             \<and> (filter recognized vs = [] \<longrightarrow>
                  u_minWidth a' = Some (Num 0) \<and> u_maxWidth a' = Some (Num 0)
                  \<and> u_minHeight a' = Some (Num 0) \<and> u_maxHeight a' = Some (Num 0))))"
proof (intro conjI impI)
  show "(\<exists>a'. measureCanvas a = Inr a') = list_all readable vs"
    using assms canvasLoop_returns [of vs "(0, 0)"]
    by (cases "canvasLoop vs (0, 0)") (auto simp: measureCanvas_def)
next
  assume "list_all readable vs"
  with canvasLoop_returns [of vs "(0, 0)"] obtain w h where
    wh: "canvasLoop vs (0, 0) = Inr (w, h)" by auto
  have f: "canvasLoop (filter recognized vs) (0, 0) = Inr (w, h)"
    by (simp add: canvasLoop_filter wh)
  have z: "filter recognized vs = [] \<Longrightarrow> w = 0 \<and> h = 0"
    using f by simp
  show "\<exists>a'. measureCanvas a = Inr a'
             \<and> measureCanvas (a\<lparr> canvas := Some (filter recognized vs) \<rparr>)
                 = Inr (a'\<lparr> canvas := Some (filter recognized vs) \<rparr>)
             \<and> (filter recognized vs = [] \<longrightarrow>
                  u_minWidth a' = Some (Num 0) \<and> u_maxWidth a' = Some (Num 0)
                  \<and> u_minHeight a' = Some (Num 0) \<and> u_maxHeight a' = Some (Num 0))"
    using assms wh f z by (auto simp: measureCanvas_def)
qed

theorem measureCanvas_returns_witness:
  "canvas (emptyAttrs\<lparr> canvas := Some [Other ''arc''] \<rparr>) = Some [Other ''arc'']
   \<and> list_all readable [Other ''arc'']
   \<and> filter recognized [Other ''arc''] = []
   \<and> (\<exists>a'. measureCanvas (emptyAttrs\<lparr> canvas := Some [Other ''arc''] \<rparr>) = Inr a'
         \<and> u_minWidth a' = Some (Num 0) \<and> u_maxWidth a' = Some (Num 0)
         \<and> u_minHeight a' = Some (Num 0) \<and> u_maxHeight a' = Some (Num 0))"
proof -
  have c: "canvas (emptyAttrs\<lparr> canvas := Some [Other ''arc''] \<rparr>) = Some [Other ''arc'']"
    by simp
  have e: "filter recognized [Other ''arc''] = []" by simp
  have l: "list_all readable [Other ''arc'']" by simp
  from measureCanvas_returns [OF c] e c l show ?thesis
    by blast
qed

text \<open>
  Claim C9 as stated fails: on the canvas \<open>[{type: 'polyline'}]\<close>, a polyline
  without points, \<open>measureCanvas\<close> throws a TypeError; so it does on
  \<open>[null]\<close>.
\<close>
theorem measureCanvas_polyline_counterexample:
  "measureCanvas (emptyAttrs\<lparr> canvas := Some [Polyline None] \<rparr>) = Inl JsTypeError
   \<and> measureCanvas (emptyAttrs\<lparr> canvas := Some [NullEntry] \<rparr>) = Inl JsTypeError
   \<and> measureNode sampleEnv ()
        (Obj None None None None None (emptyAttrs\<lparr> canvas := Some [Polyline None] \<rparr>))
       = Inl JsTypeError"
  by (simp add: measureCanvas_def measureObject_def getNodeMargin_def emptyAttrs_def Let_def)

lemma pushLast_replicate:
  "ws \<noteq> [] \<Longrightarrow> pushLast ws n = ws @ replicate (n - length ws) (last ws)"
proof (induction ws n rule: pushLast.induct)
  case (1 ws n)
  show ?case
  proof (cases "length ws < n")
    case True
    then have "n - length ws = Suc (n - length (ws @ [last ws]))" by simp
    with 1 True show ?thesis
      by (subst pushLast.simps) (simp add: replicate_app_Cons_same)
  next
    case False
    then show ?thesis by (subst pushLast.simps) simp
  qed
qed

lemma pushLast_single: "pushLast [e] n = replicate (max 1 n) e"
proof -
  have "pushLast [e] n = [e] @ replicate (n - 1) e"
    using pushLast_replicate [of "[e]" n] by simp
  also have "\<dots> = replicate (Suc (n - 1)) e" by simp
  also have "Suc (n - 1) = max 1 n" by simp
  finally show ?thesis .
qed

text \<open>
  Claim C2, as amended. For a table whose body has a first row: absent (falsy)
  widths become one \<open>{width: 'auto'}\<close> descriptor per column of that row (one
  descriptor if the row is empty); a single string is broadcast in the same way;
  an array keeps its length and has each bare number or string wrapped into a
  descriptor; a bare non-zero number is left as it is.
\<close>
theorem extendTableWidths_normalizes:
  "extendTableWidths (Tbl (row0 # rows) w mn mx) =
     Inr (Tbl (row0 # rows)
       (if \<not> widthsTruthy w then Some (WsArr (replicate (max 1 (length row0)) autoDesc))
        else case w of
          Some (WsStr s) \<Rightarrow>
            Some (WsArr (replicate (max 1 (length row0))
              (WDesc \<lparr> width = Some (WStr s), w_minWidth = None, w_maxWidth = None \<rparr>)))
        | Some (WsArr ws) \<Rightarrow> Some (WsArr (map wrapWidth ws))
        | _ \<Rightarrow> w)
       mn mx)"
  by (cases w rule: widthsTruthy.cases)
     (simp_all add: pushLast_single autoDesc_def)

theorem extendTableWidths_normalizes_witness:
  "\<not> widthsTruthy None
   \<and> extendTableWidths (Tbl [[Str ''a'', Str ''b'', Str ''c'']] None None None)
       = Inr (Tbl [[Str ''a'', Str ''b'', Str ''c'']] (Some (WsArr [autoDesc, autoDesc, autoDesc])) None None)
   \<and> widthsTruthy (Some (WsArr [WBare (WNum 50), WBare (WStr ''*'')]))
   \<and> extendTableWidths (Tbl [[Str ''a'', Str ''b'']] (Some (WsArr [WBare (WNum 50), WBare (WStr ''*'')])) None None)
       = Inr (Tbl [[Str ''a'', Str ''b'']]
           (Some (WsArr [WDesc \<lparr> width = Some (WNum 50), w_minWidth = None, w_maxWidth = None \<rparr>,
                         WDesc \<lparr> width = Some (WStr ''*''), w_minWidth = None, w_maxWidth = None \<rparr>]))
           None None)"
  using extendTableWidths_normalizes [of "[Str ''a'', Str ''b'', Str ''c'']" "[]" None None None]
    extendTableWidths_normalizes [of "[Str ''a'', Str ''b'']" "[]"
      "Some (WsArr [WBare (WNum 50), WBare (WStr ''*'')])" None None]
  by (simp add: numeral_3_eq_3)

text \<open>
  Claim C2 as stated fails: with three body columns, \<open>widths: ['auto']\<close> is
  normalized to an array of length 1, and \<open>widths: 50\<close> stays the number 50.
\<close>
theorem extendTableWidths_counterexample:
  "extendTableWidths (Tbl [[Str ''a'', Str ''b'', Str ''c'']] (Some (WsArr [WBare (WStr ''auto'')])) None None)
     = Inr (Tbl [[Str ''a'', Str ''b'', Str ''c'']] (Some (WsArr [autoDesc])) None None)
   \<and> extendTableWidths (Tbl [[Str ''a'', Str ''b'', Str ''c'']] (Some (WsNum 50)) None None)
     = Inr (Tbl [[Str ''a'', Str ''b'', Str ''c'']] (Some (WsNum 50)) None None)"
  by (simp add: autoDesc_def)

text \<open>
  Claim C3 at a failing input. With the dictionary \<open>{a: {margin: 5}, b: {}}\<close>, a
  node with \<open>style: ['a', 'b']\<close> gets no margin, because the dictionary is read
  at the key \<open>'a,b'\<close>; with \<open>style: 'a'\<close> or \<open>style: ['a']\<close> it gets
  \<open>[5, 5, 5, 5]\<close>.
\<close>
theorem getNodeMargin_style_list_lookup:
  "getNodeMargin sampleEnv (emptyAttrs\<lparr> ntext := Some ''x'', style := Some (StyleList [''a'', ''b'']) \<rparr>)
     = None
   \<and> getNodeMargin sampleEnv (emptyAttrs\<lparr> ntext := Some ''x'', style := Some (StyleName ''a'') \<rparr>)
     = Some [5, 5, 5, 5]
   \<and> getNodeMargin sampleEnv (emptyAttrs\<lparr> ntext := Some ''x'', style := Some (StyleList [''a'']) \<rparr>)
     = Some [5, 5, 5, 5]"
  by (simp add: getNodeMargin_def sampleEnv_def emptyAttrs_def)

lemma listLoop_nth:
  "listLoop E sty f isOrdered gap its cnt acc = Inr (its', acc') \<Longrightarrow>
   length its' = length its \<and>
   (\<forall>i<length its. \<exists>m. f (its ! i) = Inr m \<and>
      its' ! i = (if \<not> isNestedList m
                  then setListMarker (buildMarker E isOrdered (counterOr m (toString (cnt + i) @ ''. '')) sty gap) m
                  else m))"
proof (induction its arbitrary: cnt acc its' acc')
  case Nil
  then show ?case by simp
next
  case (Cons item rest)
  obtain mn mx where acc: "acc = (mn, mx)" by (cases acc)
  from Cons.prems obtain m where m: "f item = Inr m"
    by (auto simp: acc split: sum.splits)
  define nextItem where "nextItem = (if \<not> isNestedList m
      then setListMarker (buildMarker E isOrdered (counterOr m (toString cnt @ ''. '')) sty gap) m
      else m)"
  from Cons.prems m obtain rest' acc1 where
    r: "listLoop E sty f isOrdered gap rest (cnt + 1) acc1 = Inr (rest', acc')"
       "its' = nextItem # rest'"
    by (auto simp: acc Let_def nextItem_def split: sum.splits prod.splits)
  from Cons.IH [OF r(1)] have
    l: "length rest' = length rest"
    and n: "\<And>i. i < length rest \<Longrightarrow> \<exists>m. f (rest ! i) = Inr m \<and>
      rest' ! i = (if \<not> isNestedList m
                  then setListMarker (buildMarker E isOrdered (counterOr m (toString (cnt + 1 + i) @ ''. '')) sty gap) m
                  else m)"
    by blast+
  show ?case
  proof (intro conjI allI impI)
    show "length its' = length (item # rest)" using r(2) l by simp
  next
    fix i assume i: "i < length (item # rest)"
    show "\<exists>m. f ((item # rest) ! i) = Inr m \<and>
      its' ! i = (if \<not> isNestedList m
                  then setListMarker (buildMarker E isOrdered (counterOr m (toString (cnt + i) @ ''. '')) sty gap) m
                  else m)"
    proof (cases i)
      case 0
      with m r(2) show ?thesis by (simp add: nextItem_def)
    next
      case (Suc j)
      with i have j: "j < length rest" by simp
      have c: "cnt + 1 + j = cnt + i" using Suc by simp
      from n [OF j] show ?thesis unfolding c by (simp add: Suc r(2))
    qed
  qed
qed

lemma measureObject_Obj:
  "measureObject E st f cs ss us os tb a = Inr m \<Longrightarrow> \<exists>cs' ss' us' os' tb' a'. m = Obj cs' ss' us' os' tb' a'"
  unfolding measureObject_def Let_def
  by (auto split: option.splits sum.splits prod.splits if_splits)

lemma measureNode_Obj:
  "measureNode E st n = Inr m \<Longrightarrow> \<exists>cs' ss' us' os' tb' a'. m = Obj cs' ss' us' os' tb' a'"
  by (cases n) (auto dest: measureObject_Obj)

lemma measureNode_ol:
  assumes "measureNode E st (Obj None None None (Some its) tb a) = Inr r"
  shows "\<exists>its' a'. r = Obj None None None (Some its') tb a' \<and> length its' = length its \<and>
    (\<forall>i<length its. \<exists>m. measureNode E (autoPush E (style a) st) (its ! i) = Inr m \<and>
       its' ! i = (if \<not> isNestedList m
                   then setListMarker
                     (buildMarker E True (counterOr m (toString (1 + i) @ ''. ''))
                        (autoPush E (style a) st)
                        (gapSizeForList E (autoPush E (style a) st) True its)) m
                   else m))"
proof -
  let ?st = "autoPush E (style a) st"
  let ?gap = "gapSizeForList E ?st True its"
  from assms obtain its' acc' where
    l: "listLoop E ?st (measureNode E ?st) True ?gap its 1 (Num 0, Num 0) = Inr (its', acc')"
    and r: "\<exists>a'. r = Obj None None None (Some its') tb a'"
    by (auto simp: measureObject_def measureList_def Let_def split: sum.splits prod.splits)
  from listLoop_nth [OF l] r show ?thesis by blast
qed

text \<open>
  Claim C7, as amended. In an ordered list, an item whose measured node is not a
  nested list gets a text marker built from its 1-based sequence number followed
  by \<open>". "\<close>, or, when the item has a non-empty \<open>counter\<close>, from that value
  as it is (nothing appended); the marker's minimum and maximum width are the gap
  width and its minimum and maximum height the gap height.
\<close>
theorem ordered_list_marker:
  assumes "measureNode E st (Obj None None None (Some its) tb a) = Inr r"
    and "i < length its"
  shows "\<exists>its' a' m. r = Obj None None None (Some its') tb a'
     \<and> measureNode E (autoPush E (style a) st) (its ! i) = Inr m
     \<and> (\<not> isNestedList m \<longrightarrow>
          nodeListMarker (its' ! i) = Some
            \<lparr> m_inlines = Some (items (buildInlines E
                  (case nodeCounter m of
                     None \<Rightarrow> toString (i + 1) @ ''. ''
                   | Some c \<Rightarrow> if c = [] then toString (i + 1) @ ''. '' else c)
                  (autoPush E (style a) st))),
              m_canvas = None,
              m_minWidth = gs_width (gapSizeForList E (autoPush E (style a) st) True its),
              m_maxWidth = gs_width (gapSizeForList E (autoPush E (style a) st) True its),
              m_minHeight = gs_height (gapSizeForList E (autoPush E (style a) st) True its),
              m_maxHeight = gs_height (gapSizeForList E (autoPush E (style a) st) True its) \<rparr>)"
proof -
  from measureNode_ol [OF assms(1)] assms(2) obtain its' a' m where
    r: "r = Obj None None None (Some its') tb a'"
    and m: "measureNode E (autoPush E (style a) st) (its ! i) = Inr m"
    and n: "its' ! i = (if \<not> isNestedList m
                   then setListMarker
                     (buildMarker E True (counterOr m (toString (1 + i) @ ''. ''))
                        (autoPush E (style a) st)
                        (gapSizeForList E (autoPush E (style a) st) True its)) m
                   else m)"
    by blast
  have "\<not> isNestedList m \<Longrightarrow> nodeListMarker (its' ! i) = Some
            \<lparr> m_inlines = Some (items (buildInlines E
                  (case nodeCounter m of
                     None \<Rightarrow> toString (i + 1) @ ''. ''
                   | Some c \<Rightarrow> if c = [] then toString (i + 1) @ ''. '' else c)
                  (autoPush E (style a) st))),
              m_canvas = None,
              m_minWidth = gs_width (gapSizeForList E (autoPush E (style a) st) True its),
              m_maxWidth = gs_width (gapSizeForList E (autoPush E (style a) st) True its),
              m_minHeight = gs_height (gapSizeForList E (autoPush E (style a) st) True its),
              m_maxHeight = gs_height (gapSizeForList E (autoPush E (style a) st) True its) \<rparr>"
    using measureNode_Obj [OF m] by (auto simp: n buildMarker_def split: option.splits)
  with r m show ?thesis by blast
qed

text \<open>
  Claim C10. In an ordered list the item at index \<open>i\<close> (counted over all items,
  nested lists included) that is not a nested list and has no counter override
  gets the marker text \<open>i + 1\<close> followed by \<open>". "\<close>; an item that is a nested
  list is returned as measured, without a marker from this list.
\<close>
theorem ordered_list_counter_counts_nested_lists:
  assumes "measureNode E st (Obj None None None (Some its) tb a) = Inr r"
    and "i < length its"
  shows "\<exists>its' a' m. r = Obj None None None (Some its') tb a'
     \<and> measureNode E (autoPush E (style a) st) (its ! i) = Inr m
     \<and> (isNestedList m \<longrightarrow> its' ! i = m)
     \<and> (\<not> isNestedList m \<and> (nodeCounter m = None \<or> nodeCounter m = Some []) \<longrightarrow>
          map_option m_inlines (nodeListMarker (its' ! i)) =
            Some (Some (items (buildInlines E (toString (i + 1) @ ''. '') (autoPush E (style a) st)))))"
proof -
  from measureNode_ol [OF assms(1)] assms(2) obtain its' a' m where
    r: "r = Obj None None None (Some its') tb a'"
    and m: "measureNode E (autoPush E (style a) st) (its ! i) = Inr m"
    and n: "its' ! i = (if \<not> isNestedList m
                   then setListMarker
                     (buildMarker E True (counterOr m (toString (1 + i) @ ''. ''))
                        (autoPush E (style a) st)
                        (gapSizeForList E (autoPush E (style a) st) True its)) m
                   else m)"
    by blast
  have 1: "isNestedList m \<Longrightarrow> its' ! i = m" by (simp add: n)
  have 2: "\<not> isNestedList m \<and> (nodeCounter m = None \<or> nodeCounter m = Some []) \<Longrightarrow>
          map_option m_inlines (nodeListMarker (its' ! i)) =
            Some (Some (items (buildInlines E (toString (i + 1) @ ''. '') (autoPush E (style a) st))))"
    using measureNode_Obj [OF m] by (auto simp: n buildMarker_def)
  from r m 1 2 show ?thesis by blast
qed

lemmas measure_defs = measureObject_def measureList_def measureVerticalContainer_def
  measureColumns_def measureLeaf_def measureCanvas_def measureTable_def getNodeMargin_def
  extendMargins_def gapSizeForList_def buildMarker_def column_def putColumn_def Let_def

lemma toString_digit: "n < 10 \<Longrightarrow> toString n = [digitChar n]"
  by (simp add: toString.simps)

text \<open>
  Claim C7 as stated fails: for an item with \<open>counter: '7'\<close> the marker is built
  from \<open>'7'\<close>, not from \<open>'7. '\<close>.
\<close>
theorem ordered_list_override_counterexample:
  "measureNode sampleEnv () ol7 =
     Inr (Obj None None None
       (Some [Obj None None None None None
          (emptyAttrs\<lparr> ntext := Some ''z'', counter := Some ''7'',
              u_minWidth := Some (Num 6), u_maxWidth := Some (Num 6),
              u_inlines := Some [(''z'', 6)],
              listMarker := Some \<lparr> m_inlines = Some [(''7'', 6)], m_canvas = None,
                 m_minWidth = 18, m_maxWidth = 18, m_minHeight = 12, m_maxHeight = 12 \<rparr> \<rparr>)])
       None
       (emptyAttrs\<lparr> u_minWidth := Some (Num 24), u_maxWidth := Some (Num 24),
           u_gapSize := Some \<lparr> gs_width = 18, gs_height = 12, gs_fontSize = 12, gs_decender = -3 \<rparr> \<rparr>))
   \<and> items (buildInlines sampleEnv ''7. '' ()) = [(''7. '', 18)]"
  by (simp add: ol7_def measure_defs sampleEnv_def emptyAttrs_def toString_digit digitChar_def)

text \<open>
  Claim C1 at a failing input. For \<open>{table: {body: [['a']]}}\<close> the bounds are
  written to \<open>node.table\<close> and to the column descriptor; the returned table node
  itself has neither \<open>_minWidth\<close> nor \<open>_maxWidth\<close>, and the comparison of two
  undefined values is false. A stack around the table gets \<open>NaN\<close> for both.
\<close>
theorem table_node_has_no_bounds:
  "measureNode sampleEnv () tableDoc =
     Inr (Obj None None None None
       (Some (Tbl [[Obj None None None None None
                     (emptyAttrs\<lparr> ntext := Some ''a'', u_minWidth := Some (Num 6),
                         u_maxWidth := Some (Num 6), u_inlines := Some [(''a'', 6)] \<rparr>)]]
                (Some (WsArr [WDesc \<lparr> width = Some (WStr ''auto''), w_minWidth = Some (Num 6),
                                       w_maxWidth = Some (Num 6) \<rparr>]))
                (Some (Num 6)) (Some (Num 6))))
       emptyAttrs)
   \<and> nodeMinWidth (Obj None None None None None emptyAttrs) = None
   \<and> \<not> jsLe (toNumber None) (toNumber None)
   \<and> map_sum id nodeMinWidth (measureNode sampleEnv () (Arr [tableDoc])) = Inr (Some NaN)
   \<and> map_sum id nodeMaxWidth (measureNode sampleEnv () (Arr [tableDoc])) = Inr (Some NaN)"
  by (simp add: tableDoc_def measure_defs sampleEnv_def emptyAttrs_def pushLast.simps)

lemma ol7_ok: "\<exists>r. measureNode sampleEnv () ol7 = Inr r"
  by (simp add: ol7_def measure_defs sampleEnv_def emptyAttrs_def toString_digit digitChar_def)

lemma ol3_ok: "\<exists>r. measureNode sampleEnv () ol3 = Inr r"
  by (simp add: ol3_def measure_defs sampleEnv_def emptyAttrs_def toString_digit digitChar_def)

theorem ordered_list_marker_witness:
  "\<exists>r its' a'. measureNode sampleEnv () ol7 = Inr r \<and> (0::nat) < length [ol7]
     \<and> r = Obj None None None (Some its') None a'
     \<and> nodeListMarker (its' ! 0) = Some
          \<lparr> m_inlines = Some [(''7'', 6)], m_canvas = None,
            m_minWidth = 18, m_maxWidth = 18, m_minHeight = 12, m_maxHeight = 12 \<rparr>"
proof -
  from ol7_ok obtain r where r: "measureNode sampleEnv () ol7 = Inr r" by blast
  let ?item = "Obj None None None None None (emptyAttrs\<lparr> ntext := Some ''z'', counter := Some ''7'' \<rparr>)"
  have i: "0 < length [?item]" by simp
  from ordered_list_marker [OF r [unfolded ol7_def] i] obtain its' a' m where
    1: "r = Obj None None None (Some its') None a'"
    and 2: "measureNode sampleEnv (autoPush sampleEnv (style emptyAttrs) ()) ([?item] ! 0) = Inr m"
    and 3: "\<not> isNestedList m \<longrightarrow>
          nodeListMarker (its' ! 0) = Some
            \<lparr> m_inlines = Some (items (buildInlines sampleEnv
                  (case nodeCounter m of
                     None \<Rightarrow> toString (0 + 1) @ ''. ''
                   | Some c \<Rightarrow> if c = [] then toString (0 + 1) @ ''. '' else c)
                  (autoPush sampleEnv (style emptyAttrs) ()))),
              m_canvas = None,
              m_minWidth = gs_width (gapSizeForList sampleEnv (autoPush sampleEnv (style emptyAttrs) ()) True [?item]),
              m_maxWidth = gs_width (gapSizeForList sampleEnv (autoPush sampleEnv (style emptyAttrs) ()) True [?item]),
              m_minHeight = gs_height (gapSizeForList sampleEnv (autoPush sampleEnv (style emptyAttrs) ()) True [?item]),
              m_maxHeight = gs_height (gapSizeForList sampleEnv (autoPush sampleEnv (style emptyAttrs) ()) True [?item]) \<rparr>"
    by blast
  from 2 have m: "\<not> isNestedList m" "nodeCounter m = Some ''7''"
    by (auto simp: measure_defs sampleEnv_def emptyAttrs_def)
  from 3 m have "nodeListMarker (its' ! 0) = Some
          \<lparr> m_inlines = Some [(''7'', 6)], m_canvas = None,
            m_minWidth = 18, m_maxWidth = 18, m_minHeight = 12, m_maxHeight = 12 \<rparr>"
    by (simp add: sampleEnv_def gapSizeForList_def toString_digit)
  with r 1 show ?thesis by simp
qed

theorem ordered_list_counter_counts_nested_lists_witness:
  "\<exists>r its' a'. measureNode sampleEnv () ol3 = Inr r \<and> (2::nat) < length [ol3, ol3, ol3]
     \<and> r = Obj None None None (Some its') None a'
     \<and> map_option m_inlines (nodeListMarker (its' ! 2)) = Some (Some [(''3. '', 18)])
     \<and> map_option m_inlines (nodeListMarker (its' ! 1)) = None"
proof -
  from ol3_ok obtain r where r: "measureNode sampleEnv () ol3 = Inr r" by blast
  let ?nested = "Obj None None (Some [Str ''y'']) None None emptyAttrs"
  let ?its = "[Str ''x'', ?nested, Str ''w'']"
  have i: "2 < length ?its" "1 < length ?its" by simp_all
  from ordered_list_counter_counts_nested_lists [OF r [unfolded ol3_def] i(1)] obtain its' a' m where
    1: "r = Obj None None None (Some its') None a'"
    and 2: "measureNode sampleEnv (autoPush sampleEnv (style emptyAttrs) ()) (?its ! 2) = Inr m"
    and 3: "\<not> isNestedList m \<and> (nodeCounter m = None \<or> nodeCounter m = Some []) \<longrightarrow>
          map_option m_inlines (nodeListMarker (its' ! 2)) =
            Some (Some (items (buildInlines sampleEnv (toString (2 + 1) @ ''. '')
               (autoPush sampleEnv (style emptyAttrs) ()))))"
    by blast
  from 2 have m: "\<not> isNestedList m" "nodeCounter m = None"
    by (auto simp: measure_defs sampleEnv_def emptyAttrs_def)
  from 3 m have A: "map_option m_inlines (nodeListMarker (its' ! 2)) = Some (Some [(''3. '', 18)])"
    by (simp add: sampleEnv_def toString_digit digitChar_def)
  from ordered_list_counter_counts_nested_lists [OF r [unfolded ol3_def] i(2)] obtain its2 a2 m2 where
    4: "r = Obj None None None (Some its2) None a2"
    and 5: "measureNode sampleEnv (autoPush sampleEnv (style emptyAttrs) ()) (?its ! 1) = Inr m2"
    and 6: "isNestedList m2 \<longrightarrow> its2 ! 1 = m2"
    by blast
  from 5 have m2: "isNestedList m2" "nodeListMarker m2 = None"
    by (auto simp: measure_defs sampleEnv_def emptyAttrs_def)
  from 1 4 have "its2 = its'" by simp
  with 6 m2 have B: "map_option m_inlines (nodeListMarker (its' ! 1)) = None" by simp
  from r 1 A B show ?thesis by simp
qed

subsection \<open>Measuring a measured tree again\<close>

lemma stackLoop_again:
  "stackLoop g its acc = Inr (its', acc') \<Longrightarrow>
   (\<And>x y. x \<in> set its \<Longrightarrow> g x = Inr y \<Longrightarrow> f y = Inr y) \<Longrightarrow>
   stackLoop f its' acc = Inr (its', acc')"
proof (induction its arbitrary: acc its' acc')
  case Nil
  then show ?case by simp
next
  case (Cons item rest)
  obtain mn mx where acc: "acc = (mn, mx)" by (cases acc)
  from Cons.prems(1) obtain y rest' where
    y: "g item = Inr y"
    and r: "stackLoop g rest (jsMax mn (toNumber (nodeMinWidth y)),
                              jsMax mx (toNumber (nodeMaxWidth y))) = Inr (rest', acc')"
    and i: "its' = y # rest'"
    by (auto simp: acc split: sum.splits prod.splits)
  have fy: "f y = Inr y" using Cons.prems(2) [OF _ y] by simp
  have "stackLoop f rest' (jsMax mn (toNumber (nodeMinWidth y)),
                              jsMax mx (toNumber (nodeMaxWidth y))) = Inr (rest', acc')"
    by (rule Cons.IH [OF r]) (auto intro: Cons.prems(2))
  with fy show ?case by (simp add: acc i)
qed

lemma columnsLoop_again:
  "columnsLoop g its acc = Inr (its', acc') \<Longrightarrow>
   (\<And>x y. x \<in> set its \<Longrightarrow> g x = Inr y \<Longrightarrow> f y = Inr y) \<Longrightarrow>
   columnsLoop f its' acc = Inr (its', acc')"
proof (induction its arbitrary: acc its' acc')
  case Nil
  then show ?case by simp
next
  case (Cons item rest)
  obtain mn mx where acc: "acc = (mn, mx)" by (cases acc)
  from Cons.prems(1) obtain y rest' where
    y: "g item = Inr y"
    and r: "columnsLoop g rest (jsAdd mn (toNumber (nodeMinWidth y)),
                                jsAdd mx (toNumber (nodeMaxWidth y))) = Inr (rest', acc')"
    and i: "its' = y # rest'"
    by (auto simp: acc split: sum.splits prod.splits)
  have fy: "f y = Inr y" using Cons.prems(2) [OF _ y] by simp
  have "columnsLoop f rest' (jsAdd mn (toNumber (nodeMinWidth y)),
                             jsAdd mx (toNumber (nodeMaxWidth y))) = Inr (rest', acc')"
    by (rule Cons.IH [OF r]) (auto intro: Cons.prems(2))
  with fy show ?case by (simp add: acc i)
qed

lemma rowLoop_again:
  "rowLoop g cells acc = Inr (cells', acc') \<Longrightarrow>
   (\<And>x y. Some x \<in> set cells \<Longrightarrow> g x = Inr y \<Longrightarrow> f y = Inr y) \<Longrightarrow>
   rowLoop f (map Some cells') acc = Inr (cells', acc') \<and> length cells' = length cells"
proof (induction g cells acc arbitrary: cells' acc' rule: rowLoop.induct)
  case (1 g acc)
  then show ?case by simp
next
  case (2 g rest acc)
  then show ?case by simp
next
  case (3 g cell rest mn mx)
  from "3.prems"(1) obtain y rest' where
    y: "g cell = Inr y"
    and r: "rowLoop g rest (jsMax mn (toNumber (nodeMinWidth y)),
                            jsMax mx (toNumber (nodeMaxWidth y))) = Inr (rest', acc')"
    and i: "cells' = y # rest'"
    by (auto split: sum.splits prod.splits)
  have fy: "f y = Inr y" using "3.prems"(2) [OF _ y] by simp
  have "rowLoop f (map Some rest') (jsMax mn (toNumber (nodeMinWidth y)),
                            jsMax mx (toNumber (nodeMaxWidth y))) = Inr (rest', acc')
        \<and> length rest' = length rest"
    by (rule "3.IH" [OF y r]) (auto intro: "3.prems"(2))
  with fy show ?case by (simp add: i)
qed

lemma setListMarker_props:
  "isNestedList (setListMarker mk n) = isNestedList n"
  "counterOr (setListMarker mk n) s = counterOr n s"
  "nodeMinWidth (setListMarker mk n) = nodeMinWidth n"
  "nodeMaxWidth (setListMarker mk n) = nodeMaxWidth n"
  "setListMarker mk (setListMarker mk n) = setListMarker mk n"
  by (cases n; simp)+

lemma listLoop_again:
  "listLoop E sty g isOrdered gap its cnt acc = Inr (its', acc') \<Longrightarrow>
   (\<And>x y. x \<in> set its \<Longrightarrow> g x = Inr y \<Longrightarrow> f y = Inr y) \<Longrightarrow>
   (\<And>y mk. f y = Inr y \<Longrightarrow> f (setListMarker mk y) = Inr (setListMarker mk y)) \<Longrightarrow>
   listLoop E sty f isOrdered gap its' cnt acc = Inr (its', acc') \<and> length its' = length its"
proof (induction its arbitrary: cnt acc its' acc')
  case Nil
  then show ?case by simp
next
  case (Cons item rest)
  obtain mn mx where acc: "acc = (mn, mx)" by (cases acc)
  from Cons.prems(1) obtain y where y: "g item = Inr y"
    by (auto simp: acc split: sum.splits)
  define nextItem where "nextItem = (if \<not> isNestedList y
      then setListMarker (buildMarker E isOrdered (counterOr y (toString cnt @ ''. '')) sty gap) y
      else y)"
  define acc1 where "acc1 =
     (jsMax mn (jsAdd (toNumber (nodeMinWidth nextItem)) (Num (gs_width gap))),
      jsMax mx (jsAdd (toNumber (nodeMaxWidth nextItem)) (Num (gs_width gap))))"
  from Cons.prems(1) y obtain rest' where
    r: "listLoop E sty g isOrdered gap rest (cnt + 1) acc1 = Inr (rest', acc')"
    and i: "its' = nextItem # rest'"
    by (auto simp: acc Let_def nextItem_def acc1_def split: sum.splits prod.splits)
  have fy: "f y = Inr y" using Cons.prems(2) [OF _ y] by simp
  have fn: "f nextItem = Inr nextItem"
    using fy Cons.prems(3) by (simp add: nextItem_def)
  have again: "(if \<not> isNestedList nextItem
      then setListMarker (buildMarker E isOrdered (counterOr nextItem (toString cnt @ ''. '')) sty gap) nextItem
      else nextItem) = nextItem"
    by (simp add: nextItem_def setListMarker_props)
  have ih: "listLoop E sty f isOrdered gap rest' (cnt + 1) acc1 = Inr (rest', acc')
      \<and> length rest' = length rest"
    by (rule Cons.IH [OF r]) (auto intro: Cons.prems(2) Cons.prems(3))
  show ?case
    using fn ih by (simp add: acc i Let_def again acc1_def [symmetric])
qed

lemma setColumnBounds_wAt:
  assumes "setColumnBounds w col a b = Inr w2"
  shows "\<exists>d. wAt w col = Some (WDesc d)
     \<and> wAt w2 col = Some (WDesc (d\<lparr> w_minWidth := Some a, w_maxWidth := Some b \<rparr>))
     \<and> (\<forall>k. k \<noteq> col \<longrightarrow> wAt w2 k = wAt w k)
     \<and> (normalizedWidths w \<longrightarrow> normalizedWidths w2)"
proof -
  from assms obtain ws where w: "w = Some (WsArr ws)"
    by (cases w rule: widthsTruthy.cases) auto
  from assms w have c: "col < length ws"
    by (auto split: if_splits)
  from assms w c obtain d where d: "ws ! col = WDesc d"
    and w2: "w2 = Some (WsArr (ws[col := WDesc (d\<lparr> w_minWidth := Some a, w_maxWidth := Some b \<rparr>)]))"
    by (auto split: widthEntry.splits)
  have n: "normalizedWidths w \<Longrightarrow> normalizedWidths w2"
  proof -
    assume "normalizedWidths w"
    then have "\<forall>e\<in>set ws. wrapWidth e = e" by (simp add: w)
    moreover have "set (ws[col := WDesc (d\<lparr> w_minWidth := Some a, w_maxWidth := Some b \<rparr>)])
        \<subseteq> insert (WDesc (d\<lparr> w_minWidth := Some a, w_maxWidth := Some b \<rparr>)) (set ws)"
      by (rule set_update_subset_insert)
    ultimately show ?thesis by (auto simp: w2)
  qed
  from w c d w2 n show ?thesis by simp
qed

lemma setColumnBounds_restore:
  assumes "wAt w col = Some (WDesc d)" and "w_minWidth d = Some a" and "w_maxWidth d = Some b"
  shows "\<exists>w1. setColumnBounds w col x y = Inr w1 \<and> setColumnBounds w1 col a b = Inr w"
proof -
  from assms(1) obtain ws where w: "w = Some (WsArr ws)"
    by (cases w rule: widthsTruthy.cases) auto
  from assms(1) w have c: "col < length ws" and d: "ws ! col = WDesc d"
    by (auto split: if_splits)
  have "d\<lparr> w_minWidth := Some a, w_maxWidth := Some b \<rparr> = d"
    using assms(2,3) by simp
  with w c d show ?thesis by (simp add: list_update_same_conv)
qed

lemma length_putColumn:
  "length cells = length b \<Longrightarrow> map length (putColumn col cells b) = map length b"
  by (induction b arbitrary: cells) (auto simp: putColumn_def length_Suc_conv)

lemma hasCol_shape: "map length b = map length b0 \<Longrightarrow> hasCol b col = hasCol b0 col"
proof -
  assume "map length b = map length b0"
  then have "length ` set b = length ` set b0" by (metis list.set_map)
  then show ?thesis unfolding hasCol_def by (metis (no_types, lifting) image_iff)
qed

lemma column_putColumn_same:
  "length cells = length b \<Longrightarrow> hasCol b col \<Longrightarrow> column (putColumn col cells b) col = map Some cells"
  by (induction b arbitrary: cells) (auto simp: putColumn_def column_def hasCol_def length_Suc_conv)

lemma column_putColumn_other:
  "k \<noteq> col \<Longrightarrow> length cells = length b \<Longrightarrow> column (putColumn col cells b) k = column b k"
  by (induction b arbitrary: cells) (auto simp: putColumn_def column_def length_Suc_conv)

lemma putColumn_id:
  "column b col = map Some cells \<Longrightarrow> putColumn col cells b = b"
proof (induction b arbitrary: cells)
  case Nil
  then show ?case by (simp add: putColumn_def)
next
  case (Cons row b)
  from Cons.prems obtain c cs where cells: "cells = c # cs"
    and c: "col < length row" "row ! col = c" and r: "column b col = map Some cs"
    by (cases cells) (auto simp: column_def split: if_splits)
  from c have "row[col := c] = row" by auto
  with Cons.IH [OF r] show ?case
    by (simp add: cells putColumn_def)
qed

lemma rowLoop_hasCol:
  "rowLoop g (column b col) acc = Inr r \<Longrightarrow> hasCol b col"
proof (induction b arbitrary: acc r)
  case Nil
  then show ?case by (simp add: hasCol_def)
next
  case (Cons row b)
  obtain mn mx where acc: "acc = (mn, mx)" by (cases acc)
  from Cons.prems have c: "col < length row"
    by (auto simp: column_def acc split: if_splits)
  with Cons.prems obtain acc1 r1 where "rowLoop g (column b col) acc1 = Inr r1"
    by (auto simp: column_def acc split: sum.splits prod.splits)
  from Cons.IH [OF this] c show ?case by (simp add: hasCol_def)
qed

lemma rowLoop_length:
  "rowLoop g cells acc = Inr (cells', acc') \<Longrightarrow> length cells' = length cells"
  by (induction g cells acc arbitrary: cells' acc' rule: rowLoop.induct)
     (auto split: sum.splits prod.splits)

lemma colLoop_Cons_Inr:
  assumes "colLoop g b0 (col # cols) (Tbl b w mn mx) = Inr t'"
  shows "\<exists>w1 cells cmn cmx w2.
      setColumnBounds w col (Num 0) (Num 0) = Inr w1
    \<and> rowLoop g (column b0 col) (Num 0, Num 0) = Inr (cells, (cmn, cmx))
    \<and> setColumnBounds w1 col cmn cmx = Inr w2
    \<and> colLoop g b0 cols (Tbl (putColumn col cells b) w2
          (Some (jsAdd (toNumber mn) cmn)) (Some (jsAdd (toNumber mx) cmx))) = Inr t'"
  using assms by (auto split: sum.splits prod.splits)

lemma colLoop_preserves:
  assumes "colLoop g b0 cols (Tbl b w mn mx) = Inr (Tbl b' w' mn' mx')"
    and "map length b = map length b0"
  shows "map length b' = map length b0
     \<and> (\<forall>k. k \<notin> set cols \<longrightarrow> column b' k = column b k \<and> wAt w' k = wAt w k)
     \<and> (normalizedWidths w \<longrightarrow> normalizedWidths w')"
  using assms
proof (induction cols arbitrary: b w mn mx)
  case Nil
  then show ?case by simp
next
  case (Cons col cols)
  from colLoop_Cons_Inr [OF Cons.prems(1)] obtain w1 cells cmn cmx w2 where
    s1: "setColumnBounds w col (Num 0) (Num 0) = Inr w1"
    and rl: "rowLoop g (column b0 col) (Num 0, Num 0) = Inr (cells, (cmn, cmx))"
    and s2: "setColumnBounds w1 col cmn cmx = Inr w2"
    and rest: "colLoop g b0 cols (Tbl (putColumn col cells b) w2
          (Some (jsAdd (toNumber mn) cmn)) (Some (jsAdd (toNumber mx) cmx))) = Inr (Tbl b' w' mn' mx')"
    by blast
  have lb: "length b = length b0"
    using Cons.prems(2) by (rule map_eq_imp_length_eq)
  have lc: "length cells = length b"
    using rowLoop_length [OF rl] lb by (simp add: column_def)
  have sh: "map length (putColumn col cells b) = map length b0"
    using length_putColumn [OF lc] Cons.prems(2) by simp
  from Cons.IH [OF rest sh] have
    ih1: "map length b' = map length b0"
    and ih2: "\<And>k. k \<notin> set cols \<Longrightarrow> column b' k = column (putColumn col cells b) k \<and> wAt w' k = wAt w2 k"
    and ih3: "normalizedWidths w2 \<Longrightarrow> normalizedWidths w'"
    by blast+
  from setColumnBounds_wAt [OF s1] have
    a1: "\<And>k. k \<noteq> col \<Longrightarrow> wAt w1 k = wAt w k" and n1: "normalizedWidths w \<Longrightarrow> normalizedWidths w1"
    by blast+
  from setColumnBounds_wAt [OF s2] have
    a2: "\<And>k. k \<noteq> col \<Longrightarrow> wAt w2 k = wAt w1 k" and n2: "normalizedWidths w1 \<Longrightarrow> normalizedWidths w2"
    by blast+
  have "column b' k = column b k \<and> wAt w' k = wAt w k" if "k \<notin> set (col # cols)" for k
  proof -
    from that have k: "k \<noteq> col" "k \<notin> set cols" by simp_all
    from ih2 [OF k(2)] column_putColumn_other [OF k(1) lc] a1 [OF k(1)] a2 [OF k(1)]
    show ?thesis by simp
  qed
  with ih1 ih3 n1 n2 show ?case by blast
qed

lemma colLoop_again:
  assumes "colLoop g b0 cols (Tbl b w mn mx) = Inr (Tbl b' w' mn' mx')"
    and "distinct cols"
    and "map length b = map length b0"
    and "\<And>x y. x \<in> set (concat b0) \<Longrightarrow> g x = Inr y \<Longrightarrow> f y = Inr y"
    and "\<forall>k\<in>set cols. column c k = column b' k"
    and "toNumber m2 = toNumber mn" and "toNumber x2 = toNumber mx"
    and "cols = [] \<longrightarrow> m2 = mn' \<and> x2 = mx'"
  shows "colLoop f c cols (Tbl c w' m2 x2) = Inr (Tbl c w' mn' mx')"
  using assms
proof (induction cols arbitrary: b w mn mx m2 x2)
  case Nil
  then show ?case by simp
next
  case (Cons col cols)
  from colLoop_Cons_Inr [OF Cons.prems(1)] obtain w1 cells cmn cmx w2 where
    s1: "setColumnBounds w col (Num 0) (Num 0) = Inr w1"
    and rl: "rowLoop g (column b0 col) (Num 0, Num 0) = Inr (cells, (cmn, cmx))"
    and s2: "setColumnBounds w1 col cmn cmx = Inr w2"
    and rest: "colLoop g b0 cols (Tbl (putColumn col cells b) w2
          (Some (jsAdd (toNumber mn) cmn)) (Some (jsAdd (toNumber mx) cmx))) = Inr (Tbl b' w' mn' mx')"
    by blast
  have lb: "length b = length b0"
    using Cons.prems(3) by (rule map_eq_imp_length_eq)
  have lc: "length cells = length b"
    using rowLoop_length [OF rl] lb by (simp add: column_def)
  have sh: "map length (putColumn col cells b) = map length b0"
    using length_putColumn [OF lc] Cons.prems(3) by simp
  have hc: "hasCol b col"
    using rowLoop_hasCol [OF rl] hasCol_shape [OF Cons.prems(3)] by simp
  have notin: "col \<notin> set cols" and dist: "distinct cols"
    using Cons.prems(2) by simp_all
  from colLoop_preserves [OF rest sh] notin have
    p1: "column b' col = column (putColumn col cells b) col" and p2: "wAt w' col = wAt w2 col"
    by blast+
  have colc: "column c col = map Some cells"
    using Cons.prems(5) p1 column_putColumn_same [OF lc hc] by simp
  from setColumnBounds_wAt [OF s2] obtain d where
    "wAt w2 col = Some (WDesc (d\<lparr> w_minWidth := Some cmn, w_maxWidth := Some cmx \<rparr>))"
    by blast
  with p2 have wat: "wAt w' col = Some (WDesc (d\<lparr> w_minWidth := Some cmn, w_maxWidth := Some cmx \<rparr>))"
    by simp
  from setColumnBounds_restore [OF wat, of cmn cmx "Num 0" "Num 0"] obtain v1 where
    v1: "setColumnBounds w' col (Num 0) (Num 0) = Inr v1"
    and v2: "setColumnBounds v1 col cmn cmx = Inr w'"
    by auto
  have rf: "rowLoop f (column c col) (Num 0, Num 0) = Inr (cells, (cmn, cmx))"
    unfolding colc
    using rowLoop_again [OF rl, of f] Cons.prems(4) column_subset by blast
  have pc: "putColumn col cells c = c"
    using colc by (rule putColumn_id)
  have last: "cols = [] \<longrightarrow>
      Some (jsAdd (toNumber m2) cmn) = mn' \<and> Some (jsAdd (toNumber x2) cmx) = mx'"
    using rest Cons.prems(6,7) by auto
  have ih: "colLoop f c cols (Tbl c w' (Some (jsAdd (toNumber m2) cmn)) (Some (jsAdd (toNumber x2) cmx)))
      = Inr (Tbl c w' mn' mx')"
    by (rule Cons.IH [OF rest dist sh Cons.prems(4) _ _ _ last])
       (use Cons.prems(5,6,7) in auto)
  show ?case
    by (simp add: v1 rf v2 pc ih)
qed

lemma wrapWidth_idem: "wrapWidth (wrapWidth e) = wrapWidth e"
  by (cases e) simp_all

lemma extendTableWidths_normalized:
  assumes "extendTableWidths (Tbl b w mn mx) = Inr (Tbl b' w' mn' mx')"
  shows "normalizedWidths w' \<and> b' = b"
proof (cases "widthsTruthy w")
  case False
  with assms show ?thesis
    by (auto simp: wrapWidth_idem split: list.splits)
next
  case True
  with assms show ?thesis
    by (cases w rule: widthsTruthy.cases) (auto simp: wrapWidth_idem split: list.splits)
qed

lemma extendTableWidths_id:
  "normalizedWidths w \<Longrightarrow> extendTableWidths (Tbl b w mn mx) = Inr (Tbl b w mn mx)"
  by (cases w rule: normalizedWidths.cases) (simp_all add: map_idI)

lemma measureTable_again:
  assumes "measureTable g t = Inr t'"
    and "\<And>x y. x \<in> set (concat (body t)) \<Longrightarrow> g x = Inr y \<Longrightarrow> f y = Inr y"
  shows "measureTable f t' = Inr t'"
proof -
  obtain b0 w0 mn0 mx0 where t: "t = Tbl b0 w0 mn0 mx0" by (cases t)
  obtain b' w' mn' mx' where t': "t' = Tbl b' w' mn' mx'" by (cases t')
  from assms(1) obtain b w mn mx where
    e: "extendTableWidths t = Inr (Tbl b w mn mx)"
    by (auto simp: measureTable_def split: sum.splits tbl.splits)
  from extendTableWidths_normalized [OF e [unfolded t]] have nw: "normalizedWidths w" and b: "b = b0"
    by simp_all
  from assms(1) e obtain row0 rows where
    br: "b = row0 # rows"
    and run: "colLoop g b [0..<length row0] (Tbl b w (Some (Num 0)) (Some (Num 0))) = Inr (Tbl b' w' mn' mx')"
    by (auto simp: measureTable_def t' split: list.splits)
  from colLoop_preserves [OF run refl] nw have
    sh: "map length b' = map length b" and nw': "normalizedWidths w'"
    by blast+
  from sh br obtain row0' rows' where br': "b' = row0' # rows'" and l0: "length row0' = length row0"
    by (cases b') auto
  have fx: "\<And>x y. x \<in> set (concat b) \<Longrightarrow> g x = Inr y \<Longrightarrow> f y = Inr y"
    using assms(2) by (simp add: t b)
  have again: "colLoop f b' [0..<length row0] (Tbl b' w' (Some (Num 0)) (Some (Num 0)))
      = Inr (Tbl b' w' mn' mx')"
    by (rule colLoop_again [OF run _ refl fx]) (use run in auto)
  have e': "extendTableWidths t' = Inr (Tbl (row0' # rows') w' mn' mx')"
    unfolding t' br' by (rule extendTableWidths_id [OF nw'])
  show ?thesis
    unfolding measureTable_def e' using again [unfolded br'] l0 by (simp add: t' br')
qed

lemma getNodeMargin_cong:
  "margin b = margin a \<Longrightarrow> style b = style a \<Longrightarrow> getNodeMargin E b = getNodeMargin E a"
  unfolding getNodeMargin_def by (metis (no_types))

lemma extendMargins_fields:
  "margin (extendMargins a) = margin a" "style (extendMargins a) = style a"
  "u_margin (extendMargins a) = u_margin a" "ntext (extendMargins a) = ntext a"
  "canvas (extendMargins a) = canvas a" "counter (extendMargins a) = counter a"
  by (simp_all add: extendMargins_def split: option.splits)

lemma jsAdd_NaN: "jsAdd NaN v = NaN"
  by (cases v) simp_all

lemma measureObject_again:
  assumes run: "measureObject E st g cs ss us os tb a = Inr r"
    and ch: "\<And>x y. x \<in> childNodes cs ss us os tb \<Longrightarrow> g x = Inr y \<Longrightarrow> f y = Inr y"
    and lm: "\<And>y mk. f y = Inr y \<Longrightarrow> f (setListMarker mk y) = Inr (setListMarker mk y)"
    and fresh: "u_minWidth a = None" "u_maxWidth a = None"
  shows "\<exists>cs' ss' us' os' tb' a'. r = Obj cs' ss' us' os' tb' a' \<and> style a' = style a
     \<and> measureObject E st f cs' ss' us' os' tb' a' = Inr r"
proof -
  define M where "M = getNodeMargin E a"
  define a1 where "a1 = a\<lparr> u_margin := M \<rparr>"
  have gm: "getNodeMargin E b = M" if "margin b = margin a" "style b = style a" for b
    unfolding M_def using that by (rule getNodeMargin_cong)
  show ?thesis
  proof (cases cs)
    case (Some its)
    from run Some obtain its' mn mx where
      l: "columnsLoop g its (Num 0, Num 0) = Inr (its', (mn, mx))"
      and r: "r = Obj (Some its') ss us os tb
                (extendMargins (a\<lparr> u_margin := M, u_gap := getColumnGap E st,
                     u_minWidth := Some mn, u_maxWidth := Some mx \<rparr>))"
      by (auto simp: measureObject_def measureColumns_def Let_def M_def split: sum.splits prod.splits)
    have l': "columnsLoop f its' (Num 0, Num 0) = Inr (its', (mn, mx))"
      by (rule columnsLoop_again [OF l]) (auto intro: ch simp: childNodes_def Some)
    let ?ar = "extendMargins (a\<lparr> u_margin := M, u_gap := getColumnGap E st,
                     u_minWidth := Some mn, u_maxWidth := Some mx \<rparr>)"
    have g: "getNodeMargin E ?ar = M"
      by (rule gm) (simp_all add: extendMargins_fields)
    have "measureObject E st f (Some its') ss us os tb ?ar = Inr r"
      unfolding measureObject_def Let_def g
      by (simp add: measureColumns_def l' r extendMargins_def split: option.splits)
    with r show ?thesis by (simp add: extendMargins_fields)
  next
    case None
    note cs = None
    show ?thesis
    proof (cases ss)
      case (Some its)
      from run cs Some obtain its' mn mx where
        l: "stackLoop g its (Num 0, Num 0) = Inr (its', (mn, mx))"
        and r: "r = Obj cs (Some its') us os tb
                  (extendMargins (a\<lparr> u_margin := M, u_minWidth := Some mn, u_maxWidth := Some mx \<rparr>))"
        by (auto simp: measureObject_def measureVerticalContainer_def Let_def M_def
            split: sum.splits prod.splits)
      have l': "stackLoop f its' (Num 0, Num 0) = Inr (its', (mn, mx))"
        by (rule stackLoop_again [OF l]) (auto intro: ch simp: childNodes_def Some)
      let ?ar = "extendMargins (a\<lparr> u_margin := M, u_minWidth := Some mn, u_maxWidth := Some mx \<rparr>)"
      have g: "getNodeMargin E ?ar = M"
        by (rule gm) (simp_all add: extendMargins_fields)
      have "measureObject E st f cs (Some its') us os tb ?ar = Inr r"
        unfolding measureObject_def Let_def g
        by (simp add: cs measureVerticalContainer_def l' r extendMargins_def split: option.splits)
      with r show ?thesis by (simp add: extendMargins_fields)
    next
      case None
      note ss = None
      show ?thesis
      proof (cases us)
        case (Some its)
        let ?gap = "gapSizeForList E st False its"
        from run cs ss Some obtain its' mn mx where
          l: "listLoop E st g False ?gap its 1 (Num 0, Num 0) = Inr (its', (mn, mx))"
          and r: "r = Obj cs ss (Some its') os tb
                    (extendMargins (a\<lparr> u_margin := M, u_gapSize := Some ?gap,
                        u_minWidth := Some mn, u_maxWidth := Some mx \<rparr>))"
          by (auto simp: measureObject_def measureList_def Let_def M_def
              split: sum.splits prod.splits)
        have l': "listLoop E st f False ?gap its' 1 (Num 0, Num 0) = Inr (its', (mn, mx))"
          and len: "length its' = length its"
          using listLoop_again [OF l, of f] ch lm by (auto simp: childNodes_def Some)
        have gap: "gapSizeForList E st False its' = ?gap"
          by (simp add: gapSizeForList_def len)
        let ?ar = "extendMargins (a\<lparr> u_margin := M, u_gapSize := Some ?gap,
                        u_minWidth := Some mn, u_maxWidth := Some mx \<rparr>)"
        have g: "getNodeMargin E ?ar = M"
          by (rule gm) (simp_all add: extendMargins_fields)
        have "measureObject E st f cs ss (Some its') os tb ?ar = Inr r"
          unfolding measureObject_def Let_def g using l'
          by (simp add: cs ss measureList_def gap r extendMargins_def split: option.splits)
        with r show ?thesis by (simp add: extendMargins_fields)
      next
        case None
        note us = None
        show ?thesis
        proof (cases os)
          case (Some its)
          let ?gap = "gapSizeForList E st True its"
          from run cs ss us Some obtain its' mn mx where
            l: "listLoop E st g True ?gap its 1 (Num 0, Num 0) = Inr (its', (mn, mx))"
            and r: "r = Obj cs ss us (Some its') tb
                      (extendMargins (a\<lparr> u_margin := M, u_gapSize := Some ?gap,
                          u_minWidth := Some mn, u_maxWidth := Some mx \<rparr>))"
            by (auto simp: measureObject_def measureList_def Let_def M_def
                split: sum.splits prod.splits)
          have l': "listLoop E st f True ?gap its' 1 (Num 0, Num 0) = Inr (its', (mn, mx))"
            and len: "length its' = length its"
            using listLoop_again [OF l, of f] ch lm by (auto simp: childNodes_def Some)
          have gap: "gapSizeForList E st True its' = ?gap"
            by (simp add: gapSizeForList_def len)
          let ?ar = "extendMargins (a\<lparr> u_margin := M, u_gapSize := Some ?gap,
                          u_minWidth := Some mn, u_maxWidth := Some mx \<rparr>)"
          have g: "getNodeMargin E ?ar = M"
            by (rule gm) (simp_all add: extendMargins_fields)
          have "measureObject E st f cs ss us (Some its') tb ?ar = Inr r"
            unfolding measureObject_def Let_def g using l'
            by (simp add: cs ss us measureList_def gap r extendMargins_def split: option.splits)
          with r show ?thesis by (simp add: extendMargins_fields)
        next
          case None
          note os = None
          show ?thesis
          proof (cases tb)
            case (Some t)
            from run cs ss us os Some obtain t' where
              l: "measureTable g t = Inr t'"
              and r: "r = Obj cs ss us os (Some t') (extendMargins (a\<lparr> u_margin := M \<rparr>))"
              by (auto simp: measureObject_def Let_def M_def split: sum.splits)
            have l': "measureTable f t' = Inr t'"
            proof (rule measureTable_again [OF l])
              fix x y assume x: "x \<in> set (concat (body t))" and y: "g x = Inr y"
              from x have "x \<in> childNodes cs ss us os tb"
                unfolding childNodes_def Some by simp
              then show "f y = Inr y" using y by (rule ch)
            qed
            let ?ar = "extendMargins (a\<lparr> u_margin := M \<rparr>)"
            have g: "getNodeMargin E ?ar = M"
              by (rule gm) (simp_all add: extendMargins_fields)
            have "measureObject E st f cs ss us os (Some t') ?ar = Inr r"
              unfolding measureObject_def Let_def g
              by (simp add: cs ss us os l' r extendMargins_def fresh jsAdd_NaN split: option.splits)
            with r show ?thesis by (simp add: extendMargins_fields)
          next
            case None
            note tb = None
            show ?thesis
            proof (cases "ntext a \<noteq> None \<and> ntext a \<noteq> Some []")
              case True
              then obtain t where t: "ntext a = Some t" "t \<noteq> []" by auto
              let ?data = "buildInlines E t st"
              let ?ar = "extendMargins (a\<lparr> u_margin := M, u_inlines := Some (items ?data),
                  u_minWidth := Some (Num (minWidth ?data)), u_maxWidth := Some (Num (maxWidth ?data)) \<rparr>)"
              from run cs ss us os tb t have r: "r = Obj cs ss us os tb ?ar"
                by (auto simp: measureObject_def measureLeaf_def Let_def M_def)
              have g: "getNodeMargin E ?ar = M"
                by (rule gm) (simp_all add: extendMargins_fields)
              have "measureObject E st f cs ss us os tb ?ar = Inr r"
                unfolding measureObject_def Let_def g
                by (simp add: cs ss us os tb t measureLeaf_def Let_def r extendMargins_def split: option.splits)
              with r show ?thesis by (simp add: extendMargins_fields)
            next
              case False
              with run cs ss us os tb obtain vs where v: "canvas a = Some vs"
                by (auto simp: measureObject_def Let_def split: if_splits)
              from run cs ss us os tb False v obtain w h where wh: "canvasLoop vs (0, 0) = Inr (w, h)"
                by (auto simp: measureObject_def measureCanvas_def Let_def split: sum.splits)
              let ?ar = "extendMargins (a\<lparr> u_margin := M,
                  u_minWidth := Some (Num w), u_maxWidth := Some (Num w),
                  u_minHeight := Some (Num h), u_maxHeight := Some (Num h) \<rparr>)"
              from run cs ss us os tb False v wh have r: "r = Obj cs ss us os tb ?ar"
                by (auto simp: measureObject_def measureCanvas_def Let_def M_def)
              have g: "getNodeMargin E ?ar = M"
                by (rule gm) (simp_all add: extendMargins_fields)
              have nt: "\<not> (ntext ?ar \<noteq> None \<and> ntext ?ar \<noteq> Some [])"
                using False by (simp add: extendMargins_fields)
              have "measureObject E st f cs ss us os tb ?ar = Inr r"
                unfolding measureObject_def Let_def g
                using False
                by (auto simp: cs ss us os tb v wh measureCanvas_def r extendMargins_def split: option.splits)
              with r show ?thesis by (simp add: extendMargins_fields)
            qed
          qed
        qed
      qed
    qed
  qed
qed

lemma getNodeMargin_listMarker:
  "getNodeMargin E (a\<lparr> listMarker := x \<rparr>) = getNodeMargin E a"
  by (rule getNodeMargin_cong) simp_all

lemma extendMargins_listMarker:
  "extendMargins (a\<lparr> listMarker := x \<rparr>) = (extendMargins a)\<lparr> listMarker := x \<rparr>"
  by (simp add: extendMargins_def split: option.splits)

lemma measureObject_listMarker:
  assumes "measureObject E st f cs ss us os tb a = Inr r"
  shows "measureObject E st f cs ss us os tb (a\<lparr> listMarker := Some mk \<rparr>) = Inr (setListMarker mk r)"
proof -
  define M where "M = getNodeMargin E a"
  define a1 where "a1 = a\<lparr> u_margin := M \<rparr>"
  have sw: "a\<lparr> listMarker := Some mk, u_margin := getNodeMargin E (a\<lparr> listMarker := Some mk \<rparr>) \<rparr>
      = a1\<lparr> listMarker := Some mk \<rparr>"
    by (simp add: a1_def M_def getNodeMargin_listMarker)
  have a1: "a\<lparr> u_margin := getNodeMargin E a \<rparr> = a1"
    by (simp add: a1_def M_def)
  note run = assms [unfolded measureObject_def Let_def a1]
  show ?thesis
    unfolding measureObject_def Let_def sw
  proof (cases cs)
    case (Some its)
    with run show "(case cs of
        Some its \<Rightarrow>
          (case measureColumns E st f its (a1\<lparr> listMarker := Some mk \<rparr>) of Inl e \<Rightarrow> Inl e
           | Inr (its', a') \<Rightarrow> Inr (Obj (Some its') ss us os tb (extendMargins a')))
      | None \<Rightarrow>
      (case ss of
        Some its \<Rightarrow>
          (case measureVerticalContainer f its (a1\<lparr> listMarker := Some mk \<rparr>) of Inl e \<Rightarrow> Inl e
           | Inr (its', a') \<Rightarrow> Inr (Obj cs (Some its') us os tb (extendMargins a')))
      | None \<Rightarrow>
      (case us of
        Some its \<Rightarrow>
          (case measureList E st f False its (a1\<lparr> listMarker := Some mk \<rparr>) of Inl e \<Rightarrow> Inl e
           | Inr (its', a') \<Rightarrow> Inr (Obj cs ss (Some its') os tb (extendMargins a')))
      | None \<Rightarrow>
      (case os of
        Some its \<Rightarrow>
          (case measureList E st f True its (a1\<lparr> listMarker := Some mk \<rparr>) of Inl e \<Rightarrow> Inl e
           | Inr (its', a') \<Rightarrow> Inr (Obj cs ss us (Some its') tb (extendMargins a')))
      | None \<Rightarrow>
      (case tb of
        Some t \<Rightarrow>
          (case measureTable f t of Inl e \<Rightarrow> Inl e
           | Inr t' \<Rightarrow> Inr (Obj cs ss us os (Some t') (extendMargins (a1\<lparr> listMarker := Some mk \<rparr>))))
      | None \<Rightarrow>
          if ntext (a1\<lparr> listMarker := Some mk \<rparr>) \<noteq> None \<and> ntext (a1\<lparr> listMarker := Some mk \<rparr>) \<noteq> Some [] then
            (case measureLeaf E st (a1\<lparr> listMarker := Some mk \<rparr>) of Inl e \<Rightarrow> Inl e
             | Inr a' \<Rightarrow> Inr (Obj cs ss us os tb (extendMargins a')))
          else if canvas (a1\<lparr> listMarker := Some mk \<rparr>) \<noteq> None then
            (case measureCanvas (a1\<lparr> listMarker := Some mk \<rparr>) of Inl e \<Rightarrow> Inl e
             | Inr a' \<Rightarrow> Inr (Obj cs ss us os tb (extendMargins a')))
          else Inl UnrecognizedDocumentStructure))))) = Inr (setListMarker mk r)"
      by (auto simp: measureColumns_def extendMargins_def split: sum.splits prod.splits option.splits)
  next
    case None
    note cs = None
    show "(case cs of
        Some its \<Rightarrow>
          (case measureColumns E st f its (a1\<lparr> listMarker := Some mk \<rparr>) of Inl e \<Rightarrow> Inl e
           | Inr (its', a') \<Rightarrow> Inr (Obj (Some its') ss us os tb (extendMargins a')))
      | None \<Rightarrow>
      (case ss of
        Some its \<Rightarrow>
          (case measureVerticalContainer f its (a1\<lparr> listMarker := Some mk \<rparr>) of Inl e \<Rightarrow> Inl e
           | Inr (its', a') \<Rightarrow> Inr (Obj cs (Some its') us os tb (extendMargins a')))
      | None \<Rightarrow>
      (case us of
        Some its \<Rightarrow>
          (case measureList E st f False its (a1\<lparr> listMarker := Some mk \<rparr>) of Inl e \<Rightarrow> Inl e
           | Inr (its', a') \<Rightarrow> Inr (Obj cs ss (Some its') os tb (extendMargins a')))
      | None \<Rightarrow>
      (case os of
        Some its \<Rightarrow>
          (case measureList E st f True its (a1\<lparr> listMarker := Some mk \<rparr>) of Inl e \<Rightarrow> Inl e
           | Inr (its', a') \<Rightarrow> Inr (Obj cs ss us (Some its') tb (extendMargins a')))
      | None \<Rightarrow>
      (case tb of
        Some t \<Rightarrow>
          (case measureTable f t of Inl e \<Rightarrow> Inl e
           | Inr t' \<Rightarrow> Inr (Obj cs ss us os (Some t') (extendMargins (a1\<lparr> listMarker := Some mk \<rparr>))))
      | None \<Rightarrow>
          if ntext (a1\<lparr> listMarker := Some mk \<rparr>) \<noteq> None \<and> ntext (a1\<lparr> listMarker := Some mk \<rparr>) \<noteq> Some [] then
            (case measureLeaf E st (a1\<lparr> listMarker := Some mk \<rparr>) of Inl e \<Rightarrow> Inl e
             | Inr a' \<Rightarrow> Inr (Obj cs ss us os tb (extendMargins a')))
          else if canvas (a1\<lparr> listMarker := Some mk \<rparr>) \<noteq> None then
            (case measureCanvas (a1\<lparr> listMarker := Some mk \<rparr>) of Inl e \<Rightarrow> Inl e
             | Inr a' \<Rightarrow> Inr (Obj cs ss us os tb (extendMargins a')))
          else Inl UnrecognizedDocumentStructure))))) = Inr (setListMarker mk r)"
    proof (cases ss)
      case (Some its)
      with run cs show ?thesis
        by (auto simp: measureVerticalContainer_def extendMargins_def split: sum.splits prod.splits option.splits)
    next
      case None
      note ss = None
      show ?thesis
      proof (cases us)
        case (Some its)
        with run cs ss show ?thesis
          by (auto simp: measureList_def Let_def extendMargins_def split: sum.splits prod.splits option.splits)
      next
        case None
        note us = None
        show ?thesis
        proof (cases os)
          case (Some its)
          with run cs ss us show ?thesis
            by (auto simp: measureList_def Let_def extendMargins_def split: sum.splits prod.splits option.splits)
        next
          case None
          note os = None
          show ?thesis
          proof (cases tb)
            case (Some t)
            with run cs ss us os show ?thesis
              by (auto simp: extendMargins_def split: sum.splits option.splits)
          next
            case None
            note tb = None
            show ?thesis
            proof (cases "ntext a1 \<noteq> None \<and> ntext a1 \<noteq> Some []")
              case True
              with run cs ss us os tb show ?thesis
                by (auto simp: measureLeaf_def Let_def extendMargins_def split: option.splits)
            next
              case False
              show ?thesis
              proof (cases "measureCanvas a1")
                case (Inl e)
                with run cs ss us os tb False show ?thesis
                  by (auto split: if_splits)
              next
                case (Inr a2)
                then have "measureCanvas (a1\<lparr> listMarker := Some mk \<rparr>)
                    = Inr (a2\<lparr> listMarker := Some mk \<rparr>)"
                  by (auto simp: measureCanvas_def split: option.splits sum.splits prod.splits)
                with run cs ss us os tb False Inr show ?thesis
                  by (auto simp: extendMargins_def split: if_splits option.splits)
              qed
            qed
          qed
        qed
      qed
    qed
  qed
qed

lemma measureNode_setListMarker:
  assumes "measureNode E st y = Inr y"
  shows "measureNode E st (setListMarker mk y) = Inr (setListMarker mk y)"
proof (cases y)
  case (Obj cs ss us os tb a)
  with assms measureObject_listMarker [of E "autoPush E (style a) st"
      "measureNode E (autoPush E (style a) st)" cs ss us os tb a y mk]
  show ?thesis by simp
qed (use assms in simp_all)

text \<open>
  Where the second measurement does return the same node: when the first one is
  of a document definition, none of whose nodes carries \<open>_minWidth\<close> or
  \<open>_maxWidth\<close>. Margins resolve to the same value, table width descriptors are
  not wrapped again, and a bound that is \<open>NaN\<close> after the first measurement
  (a table node with a margin, and everything around it) is \<open>NaN\<close> after the
  second.
\<close>
lemma measureNode_again_unmeasured:
  assumes "unmeasured n" and "measureNode E st n = Inr r"
  shows "measureNode E st r = Inr r"
  using assms
proof (induction E st n arbitrary: r rule: measureNode.induct)
  case (1 E st xs)
  let ?st = "autoPush E None st"
  have ch: "measureNode E ?st y = Inr y"
    if "x \<in> childNodes None (Some xs) None None None" "measureNode E ?st x = Inr y" for x y
  proof -
    from that(1) "1.prems"(1) have u: "unmeasured x" by (simp add: childNodes_def)
    show ?thesis by (rule "1.IH" [OF that(1) u that(2)])
  qed
  from "1.prems"(2) have run:
    "measureObject E ?st (measureNode E ?st) None (Some xs) None None None emptyAttrs = Inr r"
    by simp
  have "\<exists>cs' ss' us' os' tb' a'. r = Obj cs' ss' us' os' tb' a' \<and> style a' = style emptyAttrs
     \<and> measureObject E ?st (measureNode E ?st) cs' ss' us' os' tb' a' = Inr r"
  proof (rule measureObject_again [OF run])
    fix x y
    assume "x \<in> childNodes None (Some xs) None None None" and "measureNode E ?st x = Inr y"
    then show "measureNode E ?st y = Inr y" by (rule ch)
  next
    fix y mk
    assume "measureNode E ?st y = Inr y"
    then show "measureNode E ?st (setListMarker mk y) = Inr (setListMarker mk y)"
      by (rule measureNode_setListMarker)
  qed (simp_all add: emptyAttrs_def)
  then obtain cs' ss' us' os' tb' a' where
    r: "r = Obj cs' ss' us' os' tb' a'" and s: "style a' = style emptyAttrs"
    and again: "measureObject E ?st (measureNode E ?st) cs' ss' us' os' tb' a' = Inr r"
    by blast
  from s have "style a' = None" by (simp add: emptyAttrs_def)
  with again show ?case by (simp add: r)
next
  case (2 E st t)
  let ?st = "autoPush E None st"
  have ch: "measureNode E ?st y = Inr y"
    if "x \<in> childNodes None None None None None" "measureNode E ?st x = Inr y" for x y
    using that by (simp add: childNodes_def)
  from "2.prems"(2) have run:
    "measureObject E ?st (measureNode E ?st) None None None None None
       (emptyAttrs\<lparr> ntext := Some t \<rparr>) = Inr r"
    by simp
  have "\<exists>cs' ss' us' os' tb' a'. r = Obj cs' ss' us' os' tb' a' \<and> style a' = style (emptyAttrs\<lparr> ntext := Some t \<rparr>)
     \<and> measureObject E ?st (measureNode E ?st) cs' ss' us' os' tb' a' = Inr r"
  proof (rule measureObject_again [OF run])
    fix x y
    assume "x \<in> childNodes None None None None None" and "measureNode E ?st x = Inr y"
    then show "measureNode E ?st y = Inr y" by (rule ch)
  next
    fix y mk
    assume "measureNode E ?st y = Inr y"
    then show "measureNode E ?st (setListMarker mk y) = Inr (setListMarker mk y)"
      by (rule measureNode_setListMarker)
  qed (simp_all add: emptyAttrs_def)
  then obtain cs' ss' us' os' tb' a' where
    r: "r = Obj cs' ss' us' os' tb' a'" and s: "style a' = style (emptyAttrs\<lparr> ntext := Some t \<rparr>)"
    and again: "measureObject E ?st (measureNode E ?st) cs' ss' us' os' tb' a' = Inr r"
    by blast
  from s have "style a' = None" by (simp add: emptyAttrs_def)
  with again show ?case by (simp add: r)
next
  case (3 E st cs ss us os tb a)
  let ?st = "autoPush E (style a) st"
  have ch: "measureNode E ?st y = Inr y"
    if "x \<in> childNodes cs ss us os tb" "measureNode E ?st x = Inr y" for x y
  proof -
    from that(1) "3.prems"(1) have u: "unmeasured x" by simp
    show ?thesis by (rule "3.IH" [OF that(1) u that(2)])
  qed
  from "3.prems"(2) have run:
    "measureObject E ?st (measureNode E ?st) cs ss us os tb a = Inr r"
    by simp
  from "3.prems"(1) have fresh: "u_minWidth a = None" "u_maxWidth a = None" by simp_all
  have "\<exists>cs' ss' us' os' tb' a'. r = Obj cs' ss' us' os' tb' a' \<and> style a' = style a
     \<and> measureObject E ?st (measureNode E ?st) cs' ss' us' os' tb' a' = Inr r"
  proof (rule measureObject_again [OF run])
    fix x y
    assume "x \<in> childNodes cs ss us os tb" and "measureNode E ?st x = Inr y"
    then show "measureNode E ?st y = Inr y" by (rule ch)
  next
    fix y mk
    assume "measureNode E ?st y = Inr y"
    then show "measureNode E ?st (setListMarker mk y) = Inr (setListMarker mk y)"
      by (rule measureNode_setListMarker)
  qed (rule fresh)+
  then obtain cs' ss' us' os' tb' a' where
    r: "r = Obj cs' ss' us' os' tb' a'" and s: "style a' = style a"
    and again: "measureObject E ?st (measureNode E ?st) cs' ss' us' os' tb' a' = Inr r"
    by blast
  from again s show ?case by (simp add: r)
qed

text \<open>
  Claim C8 at a failing input. The table node
  \<open>{table: {body: [['a']]}, margin: 5, _minWidth: 0, _maxWidth: 0}\<close> comes back
  with the bounds 10, and measuring the returned node again gives 20: the margin
  is added to the node's own bounds at every measurement, because
  \<open>measureTable\<close> does not set them. A text leaf with the same margin and the
  same preset bounds gets 16 both times, because \<open>measureLeaf\<close> sets them.
\<close>
theorem table_margin_accumulates:
  "measureNode sampleEnv () presetTableDoc = Inr (presetTableResult 10)
   \<and> measureNode sampleEnv () (presetTableResult 10) = Inr (presetTableResult 20)
   \<and> nodeMinWidth (presetTableResult 10) = Some (Num 10)
   \<and> nodeMinWidth (presetTableResult 20) = Some (Num 20)
   \<and> nodeMaxWidth (presetTableResult 10) = Some (Num 10)
   \<and> nodeMaxWidth (presetTableResult 20) = Some (Num 20)
   \<and> measureNode sampleEnv () presetLeafDoc = Inr presetLeafResult
   \<and> measureNode sampleEnv () presetLeafResult = Inr presetLeafResult"
  by (simp add: presetTableDoc_def presetTableResult_def presetLeafDoc_def presetLeafResult_def
      measure_defs sampleEnv_def emptyAttrs_def pushLast.simps nthNum_def)

end
